theory Spec2Isabelle
  imports Complex_Main "HOL-Library.Word"
begin

unbundle bit_operations_syntax

section \<open>Lanes: IEEE-754 single precision values as bit patterns\<close>

text \<open>
  Every function of \<^verbatim>\<open>vec_math.hpp\<close> is an elementwise map, so one lane is modelled.
  A float lane and an integer lane are both 32-bit words; a mask lane is the word with all
  bits set or the word 0.  The vector type itself (its constants, bitwise operators,
  arithmetic, comparisons, conversions and \<^verbatim>\<open>select\<close>) is not part of the header: it
  is modelled below from the capability contract of the specification, for the IEEE-754
  single precision layout (1 sign bit, 8 exponent bits, 23 fraction bits) and the default
  rounding mode, round to nearest with ties to even.
\<close>

type_synonym f32 = "32 word"
type_synonym i32 = "32 word"

subsection \<open>Constants of the vector type\<close>

text \<open>Modelled from the spec: the generator constants \<^verbatim>\<open>gen_sign_mask\<close>,
  \<^verbatim>\<open>gen_abs_mask\<close>, \<^verbatim>\<open>gen_exp_mask\<close>, \<^verbatim>\<open>gen_exp_mask_1\<close> (the exponent field of
  a value in [0.5, 1), matching the bias 126 that \<^verbatim>\<open>frexp_float\<close> subtracts),
  \<^verbatim>\<open>gen_one\<close>, \<^verbatim>\<open>gen_05\<close> and \<^verbatim>\<open>gen_zero\<close>.\<close>

definition gen_sign_mask :: f32 where "gen_sign_mask = 0x80000000"
definition gen_abs_mask :: f32 where "gen_abs_mask = 0x7FFFFFFF"
definition gen_exp_mask :: f32 where "gen_exp_mask = 0x7F800000"
definition gen_exp_mask_1 :: f32 where "gen_exp_mask_1 = 0x3F000000"
definition gen_one :: f32 where "gen_one = 0x3F800000"
definition gen_05 :: f32 where "gen_05 = 0x3F000000"
definition gen_zero :: f32 where "gen_zero = 0"

subsection \<open>Bitwise and integer lane operations\<close>

text \<open>Modelled from the spec: \<^verbatim>\<open>andnot(a, b)\<close> clears in \<open>b\<close> the bits set in \<open>a\<close>
  (the header uses it as "clear exponent"); \<^verbatim>\<open>slli\<close> and \<^verbatim>\<open>srli\<close> are the logical
  shifts of an integer lane; \<^verbatim>\<open>select(a, b, mask)\<close> takes \<open>a\<close> where the mask bits are
  clear and \<open>b\<close> where they are set.\<close>

definition andnot :: "32 word \<Rightarrow> 32 word \<Rightarrow> 32 word" where
  "andnot a b = (NOT a) AND b"

definition slli :: "i32 \<Rightarrow> nat \<Rightarrow> i32" where
  "slli a n = push_bit n a"

definition srli :: "i32 \<Rightarrow> nat \<Rightarrow> i32" where
  "srli a n = drop_bit n a"

definition select :: "32 word \<Rightarrow> 32 word \<Rightarrow> 32 word \<Rightarrow> 32 word" where
  "select a b m = (andnot m a) OR (m AND b)"

definition mask_of :: "bool \<Rightarrow> 32 word" where
  "mask_of c = (if c then - 1 else 0)"

definition mask_eq :: "i32 \<Rightarrow> i32 \<Rightarrow> 32 word" where
  "mask_eq a b = mask_of (a = b)"

subsection \<open>Reading a float lane\<close>

definition fsign :: "f32 \<Rightarrow> bool" where
  "fsign w = bit w 31"

definition fexp :: "f32 \<Rightarrow> nat" where
  "fexp w = unat (take_bit 8 (drop_bit 23 w))"

definition ffrac :: "f32 \<Rightarrow> nat" where
  "ffrac w = unat (take_bit 23 w)"

definition is_nan :: "f32 \<Rightarrow> bool" where
  "is_nan w = (fexp w = 255 \<and> ffrac w \<noteq> 0)"

definition is_inf :: "f32 \<Rightarrow> bool" where
  "is_inf w = (fexp w = 255 \<and> ffrac w = 0)"

definition is_finite :: "f32 \<Rightarrow> bool" where
  "is_finite w = (fexp w < 255)"

text \<open>A normal positive lane: sign bit clear, exponent field neither 0 nor 255.\<close>

definition is_normal_pos :: "f32 \<Rightarrow> bool" where
  "is_normal_pos x = (\<not> fsign x \<and> 0 < fexp x \<and> fexp x < 255)"

text \<open>A finite lane has the value \<open>\<plusminus> mant * 2 ^ expo\<close>; subnormals have the exponent
  field 0 and no hidden bit.  The same formula gives an infinite lane the magnitude
  \<open>2 ^ 128\<close>, above every finite value, so that the order of the values is the order of the
  comparisons on all lanes that are not NaN.\<close>

definition mant :: "f32 \<Rightarrow> nat" where
  "mant w = (if fexp w = 0 then ffrac w else 2 ^ 23 + ffrac w)"

definition expo :: "f32 \<Rightarrow> int" where
  "expo w = int (max 1 (fexp w)) - 150"

definition valof :: "f32 \<Rightarrow> real" where
  "valof w = (if fsign w then - 1 else 1) * real (mant w) * 2 powi (expo w)"

definition fneg :: "f32 \<Rightarrow> f32" where
  "fneg w = w XOR gen_sign_mask"

subsection \<open>Rounding to nearest, ties to even\<close>

fun bitlen :: "nat \<Rightarrow> nat" where
  "bitlen n = (if n = 0 then 0 else Suc (bitlen (n div 2)))"

declare bitlen.simps [simp del]

text \<open>\<open>rne_shift N t\<close> is \<open>N / 2 ^ t\<close> rounded to the nearest integer, ties to even.\<close>

definition rne_shift :: "nat \<Rightarrow> nat \<Rightarrow> nat" where
  "rne_shift N t =
     (let q = N div 2 ^ t; r = 2 * (N mod 2 ^ t)
      in if r < 2 ^ t then q
         else if 2 ^ t < r then q + 1
         else if even q then q else q + 1)"

definition pack :: "bool \<Rightarrow> nat \<Rightarrow> f32" where
  "pack s b = (if s then gen_sign_mask else 0) OR word_of_nat b"

definition qnan :: f32 where "qnan = 0x7FC00000"

text \<open>\<open>round_dy s N k\<close> is the lane nearest to \<open>\<plusminus> N * 2 ^ k\<close> (sign \<open>s\<close>).  The exponent
  \<open>rd_e N k\<close> of the last kept bit leaves 24 significant bits and is at least -149;
  \<open>rd_m N k\<close> is the significand at that exponent, exact when no bit is dropped.  The
  exponent field and the fraction are packed by one addition, so that a significand rounded
  up to \<open>2 ^ 24\<close> carries into the exponent; a result beyond the largest finite value is
  infinity.\<close>

definition rd_e :: "nat \<Rightarrow> int \<Rightarrow> int" where
  "rd_e N k = max (k + int (bitlen N) - 24) (- 149)"

definition rd_m :: "nat \<Rightarrow> int \<Rightarrow> nat" where
  "rd_m N k =
     (if rd_e N k \<le> k then N * 2 ^ nat (k - rd_e N k) else rne_shift N (nat (rd_e N k - k)))"

definition round_dy :: "bool \<Rightarrow> nat \<Rightarrow> int \<Rightarrow> f32" where
  "round_dy s N k =
     (if N = 0 then pack s 0
      else let b = nat (rd_e N k + 149) * 2 ^ 23 + rd_m N k
           in if 0x7F800000 \<le> b then pack s 0x7F800000 else pack s b)"

subsection \<open>Arithmetic of the float lane\<close>

text \<open>Modelled from the spec: lane-wise \<open>+\<close>, \<open>-\<close>, \<open>*\<close>, \<open>/\<close> and \<^verbatim>\<open>sqrt\<close> of the vector
  type, as IEEE-754 single precision operations: the exact result rounded to nearest, ties
  to even; an invalid operation or a NaN operand gives the quiet NaN \<open>qnan\<close>.\<close>

definition smant :: "f32 \<Rightarrow> int \<Rightarrow> int" where
  "smant w k = (if fsign w then - 1 else 1) * int (mant w) * 2 ^ nat (expo w - k)"

definition fadd :: "f32 \<Rightarrow> f32 \<Rightarrow> f32" where
  "fadd a b =
     (if is_nan a \<or> is_nan b then qnan
      else if is_inf a then (if is_inf b \<and> fsign a \<noteq> fsign b then qnan else a)
      else if is_inf b then b
      else let k = min (expo a) (expo b);
               x = smant a k + smant b k
           in if x = 0 then pack (fsign a \<and> fsign b) 0
              else round_dy (x < 0) (nat \<bar>x\<bar>) k)"

definition fsub :: "f32 \<Rightarrow> f32 \<Rightarrow> f32" where
  "fsub a b = fadd a (fneg b)"

definition fmul :: "f32 \<Rightarrow> f32 \<Rightarrow> f32" where
  "fmul a b =
     (let s = (fsign a \<noteq> fsign b) in
      if is_nan a \<or> is_nan b then qnan
      else if is_inf a \<or> is_inf b then
        (if (is_finite a \<and> mant a = 0) \<or> (is_finite b \<and> mant b = 0) then qnan
         else pack s 0x7F800000)
      else round_dy s (mant a * mant b) (expo a + expo b))"

definition fdiv :: "f32 \<Rightarrow> f32 \<Rightarrow> f32" where
  "fdiv a b =
     (let s = (fsign a \<noteq> fsign b) in
      if is_nan a \<or> is_nan b then qnan
      else if is_inf a then (if is_inf b then qnan else pack s 0x7F800000)
      else if is_inf b then pack s 0
      else if mant b = 0 then (if mant a = 0 then qnan else pack s 0x7F800000)
      else if mant a = 0 then pack s 0
      else let n = mant a * 2 ^ 50;
               q = n div mant b;
               st = (if n mod mant b = 0 then 0 else 1)
           in round_dy s (2 * q + st) (expo a - expo b - 51))"

fun isqrt_bits :: "nat \<Rightarrow> nat \<Rightarrow> nat \<Rightarrow> nat" where
  "isqrt_bits n k r =
     (if k = 0 then r
      else let c = r + 2 ^ (k - 1)
           in if c * c \<le> n then isqrt_bits n (k - 1) c else isqrt_bits n (k - 1) r)"

declare isqrt_bits.simps [simp del]

definition isqrt :: "nat \<Rightarrow> nat" where
  "isqrt n = isqrt_bits n (bitlen n) 0"

definition fsqrt :: "f32 \<Rightarrow> f32" where
  "fsqrt a =
     (if is_nan a then qnan
      else if mant a = 0 \<and> is_finite a then a
      else if fsign a then qnan
      else if is_inf a then a
      else let odd_e = (expo a mod 2 = 1);
               m = (if odd_e then 2 * mant a else mant a) * 2 ^ 52;
               e = (if odd_e then expo a - 1 else expo a) - 52;
               r = isqrt m;
               st = (if r * r = m then 0 else 1)
           in round_dy False (2 * r + st) (e div 2 - 1))"

subsection \<open>Comparisons and conversions\<close>

text \<open>Modelled from the spec: the lane-wise comparisons produce a mask; a comparison with
  a NaN is false, and the two zeros are equal.  \<open>fkey\<close> orders the non-NaN lanes as their
  values are ordered.\<close>

definition fkey :: "f32 \<Rightarrow> int" where
  "fkey w = (if fsign w then - int (unat (w AND gen_abs_mask)) else int (unat (w AND gen_abs_mask)))"

definition flt :: "f32 \<Rightarrow> f32 \<Rightarrow> bool" where
  "flt a b = (\<not> is_nan a \<and> \<not> is_nan b \<and> fkey a < fkey b)"

definition fle :: "f32 \<Rightarrow> f32 \<Rightarrow> bool" where
  "fle a b = (\<not> is_nan a \<and> \<not> is_nan b \<and> fkey a \<le> fkey b)"

definition fgt :: "f32 \<Rightarrow> f32 \<Rightarrow> bool" where
  "fgt a b = flt b a"

definition mask_gt :: "f32 \<Rightarrow> f32 \<Rightarrow> 32 word" where
  "mask_gt a b = mask_of (fgt a b)"

definition mask_lt :: "f32 \<Rightarrow> f32 \<Rightarrow> 32 word" where
  "mask_lt a b = mask_of (flt a b)"

text \<open>Modelled from the spec: the truncating conversion to an integer lane (a value that
  does not fit gives the bit pattern \<open>0x80000000\<close>, as the SSE conversion does) and the
  conversion of an integer lane to the nearest float.\<close>

definition truncate_to_int :: "f32 \<Rightarrow> i32" where
  "truncate_to_int w =
     (let m = (if 0 \<le> expo w then mant w * 2 ^ nat (expo w) else mant w div 2 ^ nat (- expo w))
      in if is_finite w \<and> m < 2 ^ 31
         then (if fsign w then - word_of_nat m else word_of_nat m)
         else 0x80000000)"

definition convert_to_float :: "i32 \<Rightarrow> f32" where
  "convert_to_float j = round_dy (sint j < 0) (nat \<bar>sint j\<bar>) 0"

section \<open>The functions of the header\<close>

subsection \<open>Literals\<close>

text \<open>Each literal of the header is the float lane it initialises: the literal rounded to
  single precision (a \<^verbatim>\<open>double\<close> literal that meets a vector operand is converted to the
  lane type first).\<close>

definition lit_1 :: f32 where "lit_1 = 0x3F800000"  \<comment> \<open>\<^verbatim>\<open>1\<close>, \<^verbatim>\<open>1.f\<close>\<close>
definition lit_05 :: f32 where "lit_05 = 0x3F000000"  \<comment> \<open>\<^verbatim>\<open>0.5\<close>, \<^verbatim>\<open>0.5f\<close>\<close>
definition two_to_23_ps :: f32 where "two_to_23_ps = 0x4B000000"  \<comment> \<open>\<^verbatim>\<open>0x1.0p23f\<close>\<close>
definition log2e_f :: f32 where "log2e_f = 0x3FB8AA3B"  \<comment> \<open>\<^verbatim>\<open>1.44269504088896341f\<close>\<close>
definition ln2_hi :: f32 where "ln2_hi = 0x3F318000"  \<comment> \<open>\<^verbatim>\<open>0.693359375f\<close>\<close>
definition ln2_lo :: f32 where "ln2_lo = 0xB95E8083"  \<comment> \<open>\<^verbatim>\<open>-2.12194440e-4f\<close>\<close>
definition exp_c1 :: f32 where "exp_c1 = 0x3F800003"  \<comment> \<open>\<^verbatim>\<open>1.00000035762786865234375f\<close>\<close>
definition exp_c2 :: f32 where "exp_c2 = 0x3EFFFFF5"  \<comment> \<open>\<^verbatim>\<open>0.4999996721744537353515625f\<close>\<close>
definition exp_c3 :: f32 where "exp_c3 = 0x3E2AA7C5"  \<comment> \<open>\<^verbatim>\<open>0.16665561497211456298828125f\<close>\<close>
definition exp_c4 :: f32 where "exp_c4 = 0x3D2AAE3C"  \<comment> \<open>\<^verbatim>\<open>4.167006909847259521484375e-2f\<close>\<close>
definition exp_c5 :: f32 where "exp_c5 = 0x3C09F75D"  \<comment> \<open>\<^verbatim>\<open>8.420792408287525177001953125e-3f\<close>\<close>
definition exp_c6 :: f32 where "exp_c6 = 0x3AB5AE78"  \<comment> \<open>\<^verbatim>\<open>1.386119984090328216552734375e-3f\<close>\<close>
definition maxlogf :: f32 where "maxlogf = 0x42B17218"  \<comment> \<open>\<^verbatim>\<open>88.72283905206835f\<close>\<close>
definition minlogf :: f32 where "minlogf = 0xC2CE8ED0"  \<comment> \<open>\<^verbatim>\<open>-103.278929903431851103f\<close>\<close>
definition max_float :: f32 where "max_float = 0x7F7FFFFF"  \<comment> \<open>\<^verbatim>\<open>std::numeric_limits<float>::max()\<close>\<close>
definition sqrt_05 :: f32 where "sqrt_05 = 0x3F3504F3"  \<comment> \<open>\<^verbatim>\<open>0.707106781186547524f\<close>\<close>
definition log_c0 :: f32 where "log_c0 = 0x3D9021BB"  \<comment> \<open>\<^verbatim>\<open>7.0376836292E-2\<close>\<close>
definition log_c1 :: f32 where "log_c1 = 0x3DEBD1B8"  \<comment> \<open>\<^verbatim>\<open>1.1514610310E-1\<close>\<close>
definition log_c2 :: f32 where "log_c2 = 0x3DEF251A"  \<comment> \<open>\<^verbatim>\<open>1.1676998740E-1\<close>\<close>
definition log_c3 :: f32 where "log_c3 = 0x3DFE5D4F"  \<comment> \<open>\<^verbatim>\<open>1.2420140846E-1\<close>\<close>
definition log_c4 :: f32 where "log_c4 = 0x3E11E9BF"  \<comment> \<open>\<^verbatim>\<open>1.4249322787E-1\<close>\<close>
definition log_c5 :: f32 where "log_c5 = 0x3E2AAE50"  \<comment> \<open>\<^verbatim>\<open>1.6668057665E-1\<close>\<close>
definition log_c6 :: f32 where "log_c6 = 0x3E4CCEAC"  \<comment> \<open>\<^verbatim>\<open>2.0000714765E-1\<close>\<close>
definition log_c7 :: f32 where "log_c7 = 0x3E7FFFFC"  \<comment> \<open>\<^verbatim>\<open>2.4999993993E-1\<close>\<close>
definition log_c8 :: f32 where "log_c8 = 0x3EAAAAAA"  \<comment> \<open>\<^verbatim>\<open>3.3333331174E-1\<close>\<close>
definition four_over_pi :: f32 where "four_over_pi = 0x3FA2F983"  \<comment> \<open>\<^verbatim>\<open>1.27323954473516268615107010698011489627567716592367\<close>\<close>
definition DP1 :: f32 where "DP1 = 0x3F490000"  \<comment> \<open>\<^verbatim>\<open>0.78515625\<close>\<close>
definition DP2 :: f32 where "DP2 = 0x397DA000"  \<comment> \<open>\<^verbatim>\<open>2.4187564849853515625e-4\<close>\<close>
definition DP3 :: f32 where "DP3 = 0x33222169"  \<comment> \<open>\<^verbatim>\<open>3.77489497744594108e-8\<close>\<close>
definition cos_c0 :: f32 where "cos_c0 = 0x37CCF5CE"  \<comment> \<open>\<^verbatim>\<open>2.443315711809948E-005\<close>\<close>
definition cos_c1 :: f32 where "cos_c1 = 0x3AB6061A"  \<comment> \<open>\<^verbatim>\<open>1.388731625493765E-003\<close>\<close>
definition cos_c2 :: f32 where "cos_c2 = 0x3D2AAAA5"  \<comment> \<open>\<^verbatim>\<open>4.166664568298827E-002\<close>\<close>
definition sin_c0 :: f32 where "sin_c0 = 0xB94CA1F9"  \<comment> \<open>\<^verbatim>\<open>-1.9515295891E-4\<close>\<close>
definition sin_c1 :: f32 where "sin_c1 = 0x3C08839E"  \<comment> \<open>\<^verbatim>\<open>8.3321608736E-3\<close>\<close>
definition sin_c2 :: f32 where "sin_c2 = 0x3E2AAAA3"  \<comment> \<open>\<^verbatim>\<open>1.6666654611E-1\<close>\<close>
definition tan_c0 :: f32 where "tan_c0 = 0x3EAAAA6F"  \<comment> \<open>\<^verbatim>\<open>0.3333315551280975341796875\<close>\<close>
definition tan_c1 :: f32 where "tan_c1 = 0x3E0896EE"  \<comment> \<open>\<^verbatim>\<open>0.1333882510662078857421875\<close>\<close>
definition tan_c2 :: f32 where "tan_c2 = 0x3D5AC3FE"  \<comment> \<open>\<^verbatim>\<open>5.3409568965435028076171875e-2\<close>\<close>
definition tan_c3 :: f32 where "tan_c3 = 0x3CC82C88"  \<comment> \<open>\<^verbatim>\<open>2.443529665470123291015625e-2\<close>\<close>
definition tan_c4 :: f32 where "tan_c4 = 0x3B4BFE7E"  \<comment> \<open>\<^verbatim>\<open>3.1127030961215496063232421875e-3\<close>\<close>
definition tan_c5 :: f32 where "tan_c5 = 0x3C19D534"  \<comment> \<open>\<^verbatim>\<open>9.3892104923725128173828125e-3\<close>\<close>
definition asin_c0 :: f32 where "asin_c0 = 0x3E2AAAE4"  \<comment> \<open>\<^verbatim>\<open>0.166667520999908447265625\<close>\<close>
definition asin_c1 :: f32 where "asin_c1 = 0x3D998103"  \<comment> \<open>\<^verbatim>\<open>7.4953101575374603271484375e-2\<close>\<close>
definition asin_c2 :: f32 where "asin_c2 = 0x3D3A3DB9"  \<comment> \<open>\<^verbatim>\<open>4.54690195620059967041015625e-2\<close>\<close>
definition asin_c3 :: f32 where "asin_c3 = 0x3CC620AD"  \<comment> \<open>\<^verbatim>\<open>2.418550290167331695556640625e-2\<close>\<close>
definition asin_c4 :: f32 where "asin_c4 = 0x3D2CACD5"  \<comment> \<open>\<^verbatim>\<open>4.21570129692554473876953125e-2\<close>\<close>
definition pi_2_f :: f32 where "pi_2_f = 0x3FC90FDB"  \<comment> \<open>\<^verbatim>\<open>1.57079637050628662109375\<close>\<close>
definition pi_f :: f32 where "pi_f = 0x40490FDB"  \<comment> \<open>\<^verbatim>\<open>3.1415927410125732421875\<close>\<close>
definition minus_05 :: f32 where "minus_05 = 0xBF000000"  \<comment> \<open>\<^verbatim>\<open>-0.5\<close>\<close>
definition atan_off1 :: f32 where "atan_off1 = 0x3F490FDB"  \<comment> \<open>\<^verbatim>\<open>0.78539816339744830961566084581987572104929234984377\<close>\<close>
definition atan_off2 :: f32 where "atan_off2 = 0x3FC90FDB"  \<comment> \<open>\<^verbatim>\<open>1.57079632679489661923132169163975144209858469968754\<close>\<close>
definition tan_pi_8 :: f32 where "tan_pi_8 = 0x3ED413CD"  \<comment> \<open>\<^verbatim>\<open>0.41421356237309504880168872420969807856967187537695\<close>\<close>
definition tan_3pi_8 :: f32 where "tan_3pi_8 = 0x401A827A"  \<comment> \<open>\<^verbatim>\<open>2.41421356237309504880168872420969807856967187537698\<close>\<close>
definition atan_c0 :: f32 where "atan_c0 = 0xBEAAAA2A"  \<comment> \<open>\<^verbatim>\<open>-0.333329498767852783203125\<close>\<close>
definition atan_c1 :: f32 where "atan_c1 = 0x3E4C926D"  \<comment> \<open>\<^verbatim>\<open>0.19977732002735137939453125\<close>\<close>
definition atan_c2 :: f32 where "atan_c2 = 0xBE0E1C06"  \<comment> \<open>\<^verbatim>\<open>-0.1387787759304046630859375\<close>\<close>
definition atan_c3 :: f32 where "atan_c3 = 0x3DA4F3A6"  \<comment> \<open>\<^verbatim>\<open>8.054284751415252685546875e-2\<close>\<close>
definition two_f :: f32 where "two_f = 0x40000000"  \<comment> \<open>\<^verbatim>\<open>2.f\<close>\<close>
definition maxlogf_2 :: f32 where "maxlogf_2 = 0x41B00000"  \<comment> \<open>\<^verbatim>\<open>22.f\<close>\<close>
definition limit_small :: f32 where "limit_small = 0x3F200000"  \<comment> \<open>\<^verbatim>\<open>0.625f\<close>\<close>
definition tanh_f1 :: f32 where "tanh_f1 = 0xBBBAF0EA"  \<comment> \<open>\<^verbatim>\<open>(float)-5.70498872745e-3\<close>\<close>
definition tanh_f2 :: f32 where "tanh_f2 = 0x3CA9134E"  \<comment> \<open>\<^verbatim>\<open>(float) 2.06390887954e-2\<close>\<close>
definition tanh_f3 :: f32 where "tanh_f3 = 0xBD5C1E2D"  \<comment> \<open>\<^verbatim>\<open>(float)-5.37397155531e-2\<close>\<close>
definition tanh_f4 :: f32 where "tanh_f4 = 0x3E088393"  \<comment> \<open>\<^verbatim>\<open>(float) 1.33314422036e-1\<close>\<close>
definition tanh_f5 :: f32 where "tanh_f5 = 0xBEAAAA99"  \<comment> \<open>\<^verbatim>\<open>(float)-3.33332819422e-1\<close>\<close>
definition minus_one :: f32 where "minus_one = 0xBF800000"  \<comment> \<open>\<^verbatim>\<open>-1.0\<close>\<close>

subsection \<open>Rounding family\<close>

definition vec_round_float :: "f32 \<Rightarrow> f32" where
  "vec_round_float arg =
     (let sign = arg AND gen_sign_mask;
          abs_arg = sign XOR arg;
          rounded = fsub (fadd abs_arg two_to_23_ps) two_to_23_ps
      in sign XOR rounded)"

definition vec_floor_float :: "f32 \<Rightarrow> f32" where
  "vec_floor_float arg =
     (let rounded = vec_round_float arg;
          rounded_larger = mask_gt rounded arg;
          add = rounded_larger AND gen_one
      in fsub rounded add)"

definition vec_ceil_float :: "f32 \<Rightarrow> f32" where
  "vec_ceil_float arg =
     (let rounded = vec_round_float arg;
          rounded_smaller = mask_lt rounded arg;
          add = rounded_smaller AND gen_one
      in fadd rounded add)"

subsection \<open>Exponent manipulation\<close>

definition ldexp_float :: "f32 \<Rightarrow> i32 \<Rightarrow> f32" where
  "ldexp_float x n =
     (let exponent_mask = gen_exp_mask;
          exponent = exponent_mask AND x;
          x_wo_x = andnot exponent_mask x;
          new_exp = slli n (16 + 7) + exponent
      in x_wo_x OR new_exp)"

text \<open>\<open>frexp_float\<close> returns the mantissa and, in place of the reference parameter
  \<^verbatim>\<open>exp\<close>, the exponent.\<close>

definition frexp_float :: "f32 \<Rightarrow> f32 \<times> i32" where
  "frexp_float x =
     (let exponent_mask = gen_exp_mask;
          exponent = exponent_mask AND x;
          x_wo_x = andnot exponent_mask x;
          exp_int = exponent;
          e = srli exp_int (16 + 7) - 126
      in (x_wo_x OR gen_exp_mask_1, e))"

subsection \<open>Exponential\<close>

text \<open>Modelled from the spec: the free function \<^verbatim>\<open>round\<close> of the vector type, which
  \<^verbatim>\<open>vec_exp_float\<close> calls, is the rounding family's \<open>vec_round_float\<close>.\<close>

definition round_vec :: "f32 \<Rightarrow> f32" where
  "round_vec x = vec_round_float x"

definition vec_exp_float :: "f32 \<Rightarrow> f32" where
  "vec_exp_float arg =
     (let x = arg;
          z = round_vec (fmul log2e_f x);
          n = truncate_to_int z;
          x = fsub x (fmul z ln2_hi);
          x = fsub x (fmul z ln2_lo);
          p = fadd gen_one
               (fmul x (fadd exp_c1
               (fmul x (fadd exp_c2
               (fmul x (fadd exp_c3
               (fmul x (fadd exp_c4
               (fmul x (fadd exp_c5
               (fmul x exp_c6)))))))))));
          approx = ldexp_float p n;
          zero = gen_zero;
          too_large = mask_gt arg maxlogf;
          too_small = mask_lt arg minlogf;
          ret = select approx max_float too_large;
          ret = select ret zero too_small
      in ret)"

definition vec_exp_tanh_float :: "f32 \<Rightarrow> f32" where
  "vec_exp_tanh_float arg =
     (let x = arg;
          z = round_vec (fmul log2e_f x);
          n = truncate_to_int z;
          x = fsub x (fmul z ln2_hi);
          x = fsub x (fmul z ln2_lo);
          p = fadd lit_1
               (fmul x (fadd exp_c1
               (fmul x (fadd exp_c2
               (fmul x (fadd exp_c3
               (fmul x (fadd exp_c4
               (fmul x (fadd exp_c5
               (fmul x exp_c6)))))))))));
          approx = ldexp_float p n
      in approx)"

subsection \<open>Logarithm\<close>

text \<open>The first part of \<^verbatim>\<open>vec_log_float\<close> (up to the polynomial): the mantissa and the
  exponent after the fold at \<open>sqrt 0.5\<close>.  The mask is added to the integer exponent as it
  is, and it masks the addend \<^verbatim>\<open>x_add\<close>.\<close>

definition log_fold :: "f32 \<Rightarrow> f32 \<times> i32" where
  "log_fold x0 =
     (let me = frexp_float x0;
          x = fst me;
          e = snd me;
          x_smaller_sqrt_05 = mask_lt x sqrt_05;
          e = e + x_smaller_sqrt_05;
          x_add = x;
          x_add = x_add AND x_smaller_sqrt_05;
          x = fadd x (fsub x_add gen_one)
      in (x, e))"

definition vec_log_float :: "f32 \<Rightarrow> f32" where
  "vec_log_float x0 =
     (let xe = log_fold x0;
          x = fst xe;
          e = snd xe;
          y = fmul (fmul (fmul
                (fadd (fmul
                (fsub (fmul
                (fadd (fmul
                (fsub (fmul
                (fadd (fmul
                (fsub (fmul
                (fadd (fmul
                (fsub (fmul log_c0 x) log_c1) x)
                 log_c2) x)
                 log_c3) x)
                 log_c4) x)
                 log_c5) x)
                 log_c6) x)
                 log_c7) x)
                 log_c8) x) x) x;
          fe = convert_to_float e;
          y = fadd y (fmul fe ln2_lo);
          y = fsub y (fmul (fmul lit_05 x) x);
          z = fadd x y
      in fadd z (fmul ln2_hi fe))"

subsection \<open>Sine, cosine, tangent\<close>

definition vec_sin_float :: "f32 \<Rightarrow> f32" where
  "vec_sin_float arg =
     (let sign = arg AND gen_sign_mask;
          abs_arg = arg AND gen_abs_mask;
          y = fmul abs_arg four_over_pi;
          j = truncate_to_int y;
          j = (j + 1) AND (NOT 1);
          y = convert_to_float j;
          swap_sign_bit = slli (j AND 4) 29;
          sign = sign XOR swap_sign_bit;
          poly_mask = mask_eq (j AND 2) 0;
          base = fsub (fsub (fsub abs_arg (fmul y DP1)) (fmul y DP2)) (fmul y DP3);
          z = fmul base base;
          p1 = fadd (fsub (fmul (fmul
                 (fadd (fmul (fsub (fmul cos_c0 z) cos_c1) z) cos_c2) z) z)
                 (fmul lit_05 z)) lit_1;
          p2 = fadd (fmul (fmul
                 (fsub (fmul (fadd (fmul sin_c0 z) sin_c1) z) sin_c2) z) base) base;
          approximation = select p1 p2 poly_mask
      in approximation XOR sign)"

definition vec_cos_float :: "f32 \<Rightarrow> f32" where
  "vec_cos_float arg =
     (let abs_arg = arg AND gen_abs_mask;
          y = fmul abs_arg four_over_pi;
          j = truncate_to_int y;
          j = (j + 1) AND (NOT 1);
          y = convert_to_float j;
          jm2 = j - 2;
          sign = slli (andnot jm2 4) 29;
          poly_mask = mask_eq (jm2 AND 2) 0;
          base = fsub (fsub (fsub abs_arg (fmul y DP1)) (fmul y DP2)) (fmul y DP3);
          z = fmul base base;
          p1 = fadd (fsub (fmul (fmul
                 (fadd (fmul (fsub (fmul cos_c0 z) cos_c1) z) cos_c2) z) z)
                 (fmul lit_05 z)) lit_1;
          p2 = fadd (fmul (fmul
                 (fsub (fmul (fadd (fmul sin_c0 z) sin_c1) z) sin_c2) z) base) base;
          approximation = select p1 p2 poly_mask
      in approximation XOR sign)"

text \<open>\<^verbatim>\<open>vec_tan_float\<close> in two parts: \<open>tan_branches\<close> is the body from the quadrant
  reduction to the two candidates \<^verbatim>\<open>recip\<close> and \<^verbatim>\<open>approx\<close> and the mask
  \<^verbatim>\<open>poly_mask\<close>, all computed from \<^verbatim>\<open>abs_arg\<close>; \<open>vec_tan_float\<close> selects and sets the
  sign.\<close>

definition tan_branches :: "f32 \<Rightarrow> f32 \<times> f32 \<times> 32 word" where
  "tan_branches abs_arg =
     (let y = fmul abs_arg four_over_pi;
          j = truncate_to_int y;
          j = (j + 1) AND (NOT 1);
          y = convert_to_float j;
          poly_mask = mask_eq (j AND 2) 0;
          base = fsub (fsub (fsub abs_arg (fmul y DP1)) (fmul y DP2)) (fmul y DP3);
          x = base;
          x2 = fmul x x;
          approx = fadd x (fmul (fmul x x2)
                     (fadd tan_c0 (fmul x2
                     (fadd tan_c1 (fmul x2
                     (fadd tan_c2 (fmul x2
                     (fadd tan_c3 (fmul x2
                     (fadd tan_c4 (fmul x2 tan_c5)))))))))));
          recip = fdiv minus_one approx
      in (recip, approx, poly_mask))"

definition vec_tan_float :: "f32 \<Rightarrow> f32" where
  "vec_tan_float arg =
     (let sign = arg AND gen_sign_mask;
          abs_arg = arg AND gen_abs_mask;
          branches = tan_branches abs_arg;
          recip = fst branches;
          approx = fst (snd branches);
          poly_mask = snd (snd branches);
          approximation = select recip approx poly_mask
      in approximation XOR sign)"

subsection \<open>Arc sine, arc cosine, arc tangent\<close>

definition vec_asin_float :: "f32 \<Rightarrow> f32" where
  "vec_asin_float arg =
     (let abs_arg = arg AND gen_abs_mask;
          sign = arg AND gen_sign_mask;
          one = gen_one;
          half = gen_05;
          zero = gen_zero;
          arg_greater_05 = mask_gt abs_arg lit_05;
          arg_reduced_sqr = fmul (fsub one abs_arg) half;
          arg_reduced = fsqrt (fmul (fsub one abs_arg) half);
          approx_arg = select abs_arg arg_reduced arg_greater_05;
          z = select (fmul abs_arg abs_arg) arg_reduced_sqr arg_greater_05;
          x = approx_arg;
          x2 = fmul x x;
          approx_poly = fadd x (fmul (fmul x x2)
                          (fadd asin_c0 (fmul x2
                          (fadd asin_c1 (fmul x2
                          (fadd asin_c2 (fmul x2
                          (fadd asin_c3 (fmul x2 asin_c4)))))))));
          approx_poly_reduced = fsub (fsub pi_2_f approx_poly) approx_poly;
          approx = select approx_poly approx_poly_reduced arg_greater_05;
          approx = approx XOR sign;
          ret = select approx zero (mask_gt abs_arg one)
      in ret)"

definition vec_acos_float :: "f32 \<Rightarrow> f32" where
  "vec_acos_float arg =
     (let abs_arg = arg AND gen_abs_mask;
          one = gen_one;
          half = gen_05;
          zero = gen_zero;
          arg_greater_05 = mask_gt abs_arg half;
          asin_arg_greater_05 = fsqrt (fmul (fsub one abs_arg) half);
          asin_arg = select arg asin_arg_greater_05 arg_greater_05;
          asin = vec_asin_float asin_arg;
          two_asin = fadd asin asin;
          ret_m1_m05 = fsub pi_f two_asin;
          ret_m05_05 = fsub pi_2_f asin;
          ret_05_1 = two_asin;
          ret_m05_1 = select ret_m05_05 ret_05_1 (mask_gt arg half);
          ret = select ret_m1_m05 ret_m05_1 (mask_gt arg minus_05);
          ret = select ret zero (mask_gt abs_arg one)
      in ret)"

text \<open>\<^verbatim>\<open>vec_atan_float\<close> in two parts: \<open>atan_ranges\<close> gives the three candidate
  arguments and the two range masks, all computed from \<^verbatim>\<open>abs_arg\<close>; \<open>vec_atan_float\<close>
  selects, evaluates the polynomial and sets the sign.\<close>

definition atan_ranges :: "f32 \<Rightarrow> f32 \<times> f32 \<times> f32 \<times> 32 word \<times> 32 word" where
  "atan_ranges abs_arg =
     (let one = gen_one;
          arg_range0 = abs_arg;
          arg_range1 = fdiv (fsub abs_arg one) (fadd abs_arg one);
          arg_range2 = fdiv (fneg one) abs_arg;
          mask_range_01 = mask_gt abs_arg tan_pi_8;
          mask_range_12 = mask_gt abs_arg tan_3pi_8
      in (arg_range0, arg_range1, arg_range2, mask_range_01, mask_range_12))"

definition vec_atan_float :: "f32 \<Rightarrow> f32" where
  "vec_atan_float arg =
     (let sign_arg = arg AND gen_sign_mask;
          abs_arg = arg AND gen_abs_mask;
          zero = gen_zero;
          ranges = atan_ranges abs_arg;
          arg_range0 = fst ranges;
          arg_range1 = fst (snd ranges);
          arg_range2 = fst (snd (snd ranges));
          mask_range_01 = fst (snd (snd (snd ranges)));
          mask_range_12 = snd (snd (snd (snd ranges)));
          offset_range0 = zero;
          offset_range1 = atan_off1;
          offset_range2 = atan_off2;
          approx_arg = select arg_range0
                         (select arg_range1 arg_range2 mask_range_12) mask_range_01;
          approx_offset = select offset_range0
                            (select offset_range1 offset_range2 mask_range_12) mask_range_01;
          x = approx_arg;
          x2 = fmul x x;
          approx = fadd (fadd approx_offset x) (fmul (fmul x x2)
                     (fadd atan_c0 (fmul x2
                     (fadd atan_c1 (fmul x2
                     (fadd atan_c2 (fmul x2 atan_c3)))))))
      in approx XOR sign_arg)"

subsection \<open>Hyperbolic tangent\<close>

definition vec_tanh_float :: "f32 \<Rightarrow> f32" where
  "vec_tanh_float arg =
     (let sign_arg = arg AND gen_sign_mask;
          abs_arg = arg XOR sign_arg;
          one = gen_one;
          two = two_f;
          abs_big = mask_gt abs_arg maxlogf_2;
          result_limit_abs = one;
          arg_sqr = fmul abs_arg abs_arg;
          result_small = fadd (fmul (fmul
                           (fadd (fmul
                           (fadd (fmul
                           (fadd (fmul
                           (fadd (fmul tanh_f1 arg_sqr)
                            tanh_f2) arg_sqr)
                            tanh_f3) arg_sqr)
                            tanh_f4) arg_sqr)
                            tanh_f5) arg_sqr) arg) arg;
          abs_small = mask_lt abs_arg limit_small;
          result_medium_abs =
            fsub one (fdiv two (fadd (vec_exp_tanh_float (fadd abs_arg abs_arg)) one));
          result_lm_abs = select result_medium_abs result_limit_abs abs_big;
          result_lm = result_lm_abs OR sign_arg;
          result = select result_lm result_small abs_small
      in result)"

section \<open>Properties\<close>

subsection \<open>Evaluation\<close>

text \<open>The defining equations by which the simplifier evaluates a function of the header on
  a concrete lane.\<close>

lemmas lit_defs =
  lit_1_def lit_05_def two_to_23_ps_def log2e_f_def ln2_hi_def ln2_lo_def exp_c1_def
  exp_c2_def exp_c3_def exp_c4_def exp_c5_def exp_c6_def maxlogf_def minlogf_def max_float_def
  sqrt_05_def log_c0_def log_c1_def log_c2_def log_c3_def log_c4_def log_c5_def log_c6_def
  log_c7_def log_c8_def four_over_pi_def DP1_def DP2_def DP3_def cos_c0_def cos_c1_def
  cos_c2_def sin_c0_def sin_c1_def sin_c2_def tan_c0_def tan_c1_def tan_c2_def tan_c3_def
  tan_c4_def tan_c5_def asin_c0_def asin_c1_def asin_c2_def asin_c3_def asin_c4_def pi_2_f_def
  pi_f_def minus_05_def atan_off1_def atan_off2_def tan_pi_8_def tan_3pi_8_def atan_c0_def
  atan_c1_def atan_c2_def atan_c3_def two_f_def maxlogf_2_def limit_small_def tanh_f1_def
  tanh_f2_def tanh_f3_def tanh_f4_def tanh_f5_def minus_one_def

lemmas gen_defs =
  gen_sign_mask_def gen_abs_mask_def gen_exp_mask_def gen_exp_mask_1_def gen_one_def gen_05_def
  gen_zero_def

lemmas lane_defs =
  andnot_def slli_def srli_def select_def mask_of_def mask_eq_def mask_gt_def mask_lt_def

lemmas float_defs =
  fsign_def fexp_def ffrac_def is_nan_def is_inf_def is_finite_def mant_def expo_def fneg_def
  bitlen.simps rne_shift_def pack_def qnan_def rd_e_def rd_m_def round_dy_def smant_def fadd_def fsub_def fmul_def
  fdiv_def isqrt_bits.simps isqrt_def fsqrt_def fkey_def flt_def fle_def fgt_def
  truncate_to_int_def convert_to_float_def

lemmas feval = lit_defs gen_defs lane_defs float_defs Let_def

subsection \<open>Masks, selection and the sign bit\<close>

lemma select_true: "select a b (mask_of True) = b"
  by (simp add: select_def mask_of_def andnot_def)

lemma select_false: "select a b (mask_of False) = a"
  by (simp add: select_def mask_of_def andnot_def)

lemma fle_not_fgt: "fle a b \<Longrightarrow> \<not> fgt a b"
  by (simp add: fle_def fgt_def flt_def)

lemma fle_not_flt: "fle a b \<Longrightarrow> \<not> flt b a"
  by (simp add: fle_def flt_def)

lemma sign_abs_bits: "gen_abs_mask = NOT gen_sign_mask"
  by (simp add: gen_abs_mask_def gen_sign_mask_def)

lemma sign_mask_bits: "gen_sign_mask = push_bit 31 1"
  by (simp add: gen_sign_mask_def)

lemma bit_sign_mask: "bit gen_sign_mask n \<longleftrightarrow> n = 31"
  unfolding sign_mask_bits by (simp only: bit_push_bit_iff bit_1_iff) auto

lemma abs_fneg: "fneg x AND gen_abs_mask = x AND gen_abs_mask"
  unfolding fneg_def sign_abs_bits by (rule bit_word_eqI) (auto simp add: bit_simps)

lemma sign_fneg: "fneg x AND gen_sign_mask = (x AND gen_sign_mask) XOR gen_sign_mask"
  unfolding fneg_def by (rule bit_word_eqI) (auto simp add: bit_simps)

lemma xor_sign_is_abs: "x XOR (x AND gen_sign_mask) = x AND gen_abs_mask"
  unfolding sign_abs_bits by (rule bit_word_eqI) (auto simp add: bit_simps)

lemma sign_xor_is_abs: "(x AND gen_sign_mask) XOR x = x AND gen_abs_mask"
  unfolding sign_abs_bits by (rule bit_word_eqI) (auto simp add: bit_simps)

lemma or_sign_flip:
  assumes "\<not> bit a 31"
  shows "a OR ((x AND gen_sign_mask) XOR gen_sign_mask)
         = (a OR (x AND gen_sign_mask)) XOR gen_sign_mask"
proof (rule bit_word_eqI)
  fix n assume "n < LENGTH(32)"
  show "bit (a OR ((x AND gen_sign_mask) XOR gen_sign_mask)) n
        = bit ((a OR (x AND gen_sign_mask)) XOR gen_sign_mask) n"
    using assms
    by (cases "n = 31") (simp_all add: bit_or_iff bit_xor_iff bit_and_iff bit_sign_mask)
qed

subsection \<open>Bit fields\<close>

lemma gen_exp_mask_bits: "gen_exp_mask = push_bit 23 (mask 8)"
  by (simp add: mask_eq_exp_minus_1 gen_exp_mask_def)

lemma gen_exp_mask_1_bits: "gen_exp_mask_1 = push_bit 24 (mask 6)"
  by (simp add: mask_eq_exp_minus_1 gen_exp_mask_1_def)

lemma exp_field_shift: "slli (srli (gen_exp_mask AND x) 23) 23 = gen_exp_mask AND x"
  unfolding gen_exp_mask_bits slli_def srli_def
  by (rule bit_word_eqI) (auto simp add: bit_simps)

lemma exp_rebias:
  "slli (srli (gen_exp_mask AND x) (16 + 7) - 126) (16 + 7) + gen_exp_mask_1 = gen_exp_mask AND x"
proof -
  have "slli (srli (gen_exp_mask AND x) 23 - 126) 23
        = slli (srli (gen_exp_mask AND x) 23) 23 - gen_exp_mask_1"
    by (simp add: slli_def push_bit_eq_mult algebra_simps gen_exp_mask_1_def)
  then show ?thesis by (simp add: exp_field_shift)
qed

lemma exp_of_mantissa:
  "gen_exp_mask AND (andnot gen_exp_mask x OR gen_exp_mask_1) = gen_exp_mask_1"
  unfolding gen_exp_mask_bits gen_exp_mask_1_bits andnot_def
  by (rule bit_word_eqI) (auto simp add: bit_simps)

lemma frac_of_mantissa:
  "andnot gen_exp_mask (andnot gen_exp_mask x OR gen_exp_mask_1) = andnot gen_exp_mask x"
  unfolding gen_exp_mask_bits gen_exp_mask_1_bits andnot_def
  by (rule bit_word_eqI) (auto simp add: bit_simps)

lemma split_join: "andnot gen_exp_mask x OR (gen_exp_mask AND x) = x"
  unfolding andnot_def by (rule bit_word_eqI) (auto simp add: bit_simps)

lemma ldexp_frexp: "ldexp_float (fst (frexp_float x)) (snd (frexp_float x)) = x"
  unfolding ldexp_float_def frexp_float_def Let_def fst_conv snd_conv
  by (simp only: exp_of_mantissa frac_of_mantissa exp_rebias split_join)

subsection \<open>Round trip of the exponent manipulation\<close>

text \<open>C5: for every normal positive single-precision float \<open>x\<close>, with \<open>(m, e)\<close> the mantissa
  and the exponent that \<open>frexp_float x\<close> produces, \<open>ldexp_float m e\<close> is \<open>x\<close> exactly, bit for
  bit.\<close>

theorem frexp_ldexp_roundtrip:
  "is_normal_pos x \<Longrightarrow> frexp_float x = (m, e) \<Longrightarrow> ldexp_float m e = x"
  using ldexp_frexp [of x] by simp

theorem frexp_ldexp_roundtrip_witness:
  "is_normal_pos 0x40200000 \<and> frexp_float 0x40200000 = (0x3F200000, 2)
   \<and> ldexp_float 0x3F200000 2 = 0x40200000"
proof -
  have n: "is_normal_pos 0x40200000"
    by (simp add: is_normal_pos_def fsign_def fexp_def)
  have f: "frexp_float 0x40200000 = (0x3F200000, 2)"
    by (simp add: frexp_float_def gen_exp_mask_def gen_exp_mask_1_def andnot_def srli_def)
  show ?thesis using n f frexp_ldexp_roundtrip [OF n f] by simp
qed


subsection \<open>Bit patterns as numbers\<close>

lemma fsign_unat: "fsign w \<longleftrightarrow> 2 ^ 31 \<le> unat w"
proof -
  have lt: "unat w < 2 ^ 32" using unsigned_less [of w] by simp
  have "odd (unat w div 2 ^ 31) \<longleftrightarrow> 2 ^ 31 \<le> unat w"
  proof (cases "unat w < 2 ^ 31")
    case True then show ?thesis by simp
  next
    case False
    then have "unat w div 2 ^ 31 = 1" using lt by (intro div_nat_eqI) simp_all
    then show ?thesis using False by simp
  qed
  moreover have "bit w 31 \<longleftrightarrow> bit (unat w) 31" by (simp add: bit_unsigned_iff)
  ultimately show ?thesis by (simp add: fsign_def bit_iff_odd)
qed

lemma fexp_unat: "fexp w = (unat w div 2 ^ 23) mod 256"
  unfolding fexp_def by (simp add: take_bit_eq_mod drop_bit_eq_div unat_div unat_mod)

lemma ffrac_unat: "ffrac w = unat w mod 2 ^ 23"
  unfolding ffrac_def by (simp add: take_bit_eq_mod unat_mod)

lemma unat_pack: "b < 2 ^ 31 \<Longrightarrow> unat (pack s b) = (if s then 2 ^ 31 else 0) + b"
proof -
  assume b: "b < 2 ^ 31"
  have u: "unat (word_of_nat b :: 32 word) = b" using b by (simp add: unat_of_nat)
  have nb: "\<not> bit (word_of_nat b :: 32 word) 31"
    using b u fsign_unat [of "word_of_nat b"] by (simp add: fsign_def)
  have d: "gen_sign_mask OR word_of_nat b = gen_sign_mask + word_of_nat b"
    unfolding sign_mask_bits
  proof (rule disjunctive_add [symmetric])
    fix n
    show "\<not> bit (push_bit 31 1 :: 32 word) n \<or> \<not> bit (word_of_nat b :: 32 word) n"
    proof (cases "n = 31")
      case True with nb show ?thesis by simp
    next
      case False
      then have "\<not> bit (push_bit 31 1 :: 32 word) n"
        by (simp only: bit_push_bit_iff bit_1_iff) auto
      then show ?thesis ..
    qed
  qed
  have "unat (gen_sign_mask + word_of_nat b :: 32 word) = 2 ^ 31 + b"
    using b u by (simp add: unat_word_ariths gen_sign_mask_def)
  then show ?thesis using u d by (simp add: pack_def)
qed

lemma fsign_pack: "b < 2 ^ 31 \<Longrightarrow> fsign (pack s b) = s"
  by (simp add: fsign_unat unat_pack)

lemma fexp_pack: "b < 0x7F800000 \<Longrightarrow> fexp (pack s b) = b div 2 ^ 23"
proof -
  assume b: "b < 0x7F800000"
  then have "b div 2 ^ 23 < 255" by (simp add: less_mult_imp_div_less)
  moreover have "(2 ^ 31 + b) div 2 ^ 23 = 256 + b div 2 ^ 23"
    using div_mult_self3 [of "2 ^ 23" 256 b] by simp
  ultimately show ?thesis using b by (simp add: fexp_unat unat_pack)
qed

lemma ffrac_pack: "b < 2 ^ 31 \<Longrightarrow> ffrac (pack s b) = b mod 2 ^ 23"
proof -
  have "(2 ^ 31 + b) mod 2 ^ 23 = b mod 2 ^ 23"
    using mod_mult_self3 [of 256 "2 ^ 23" b] by simp
  then show "b < 2 ^ 31 \<Longrightarrow> ?thesis" by (simp add: ffrac_unat unat_pack)
qed



lemma bitlen_pos: "0 < n \<Longrightarrow> 0 < bitlen n"
  by (subst bitlen.simps) simp

lemma bitlen_bounds: "0 < n \<Longrightarrow> 2 ^ (bitlen n - 1) \<le> n \<and> n < 2 ^ bitlen n"
proof (induction n rule: bitlen.induct)
  case (1 n)
  show ?case
  proof (cases "n div 2 = 0")
    case True
    with 1 have "n = 1" by (simp add: div_eq_0_iff) 
    then show ?thesis by (simp add: bitlen.simps)
  next
    case False
    then have p: "0 < n div 2" by simp
    from 1 p have ih: "2 ^ (bitlen (n div 2) - 1) \<le> n div 2 \<and> n div 2 < 2 ^ bitlen (n div 2)"
      by simp
    have b: "bitlen n = Suc (bitlen (n div 2))" using 1 by (subst bitlen.simps) simp
    have q: "0 < bitlen (n div 2)" using p by (rule bitlen_pos)
    have "2 ^ (bitlen n - 1) = 2 * 2 ^ (bitlen (n div 2) - 1)"
      using b q by (cases "bitlen (n div 2)") simp_all
    also have "\<dots> \<le> 2 * (n div 2)" using ih by simp
    also have "\<dots> \<le> n" by simp
    finally have l: "2 ^ (bitlen n - 1) \<le> n" .
    have "n < 2 * (n div 2) + 2" by presburger
    also have "\<dots> \<le> 2 * 2 ^ bitlen (n div 2)" using ih by simp
    finally have u: "n < 2 ^ bitlen n" using b by simp
    from l u show ?thesis ..
  qed
qed

lemma bitlen_unique: "2 ^ m \<le> n \<Longrightarrow> n < 2 ^ Suc m \<Longrightarrow> bitlen n = Suc m"
proof -
  assume l: "2 ^ m \<le> n" and u: "n < 2 ^ Suc m"
  then have p: "0 < n" by (metis less_le_trans zero_less_numeral zero_less_power)
  from bitlen_bounds [OF p] have b: "2 ^ (bitlen n - 1) \<le> n" "n < 2 ^ bitlen n" by simp_all
  have "(2::nat) ^ m < 2 ^ bitlen n" using l b(2) by (rule le_less_trans)
  then have 1: "m < bitlen n" by (rule nat_power_less_imp_less [rotated]) simp
  have "(2::nat) ^ (bitlen n - 1) < 2 ^ Suc m" using b(1) u by (rule le_less_trans)
  then have 2: "bitlen n - 1 < Suc m" by (rule nat_power_less_imp_less [rotated]) simp
  from 1 2 show ?thesis by simp
qed

lemma rne_shift_lower: "N div 2 ^ t \<le> rne_shift N t"
  by (simp add: rne_shift_def Let_def)

lemma rne_shift_upper: "rne_shift N t \<le> N div 2 ^ t + 1"
  by (simp add: rne_shift_def Let_def)

lemma rne_shift_exact: "2 ^ t dvd N \<Longrightarrow> rne_shift N t = N div 2 ^ t"
  by (simp add: rne_shift_def Let_def mod_eq_0_iff_dvd)

lemma rne_shift_add:
  assumes "even c"
  shows "rne_shift (m + c * 2 ^ t) t = c + rne_shift m t"
proof -
  have d: "(m + c * 2 ^ t) div 2 ^ t = c + m div 2 ^ t" by simp
  have r: "(m + c * 2 ^ t) mod 2 ^ t = m mod 2 ^ t" by simp
  show ?thesis unfolding rne_shift_def Let_def d r using assms by simp
qed

lemma fexp_less: "fexp w < 256"
  by (simp add: fexp_unat)

lemma ffrac_less: "ffrac w < 2 ^ 23"
  by (simp add: ffrac_unat)

lemma mant_less: "mant w < 2 ^ 24"
  using ffrac_less [of w] by (simp add: mant_def)

lemma expo_lower: "- 149 \<le> expo w"
  by (simp add: expo_def)

lemma finite_not_nan_inf: "is_finite w \<Longrightarrow> \<not> is_nan w \<and> \<not> is_inf w"
  by (simp add: is_finite_def is_nan_def is_inf_def)

lemma p2_add: "(2::real) powi (a + b) = 2 powi a * 2 powi b"
  by (simp add: power_int_add)

lemma p2_pos: "0 < (2::real) powi a"
  by simp

lemma p2_nat: "0 \<le> a \<Longrightarrow> (2::real) powi a = 2 ^ nat a"
  by (metis nat_0_le power_int_of_nat)

lemma p2_mono: "a \<le> b \<Longrightarrow> (2::real) powi a \<le> 2 powi b"
  by (rule power_int_increasing) simp_all

lemma p2_strict_mono: "a < b \<Longrightarrow> (2::real) powi a < 2 powi b"
  by (rule power_int_strict_increasing) simp_all

lemma p2_less: "(2::real) powi a < 2 powi b \<longleftrightarrow> a < b"
  using p2_strict_mono [of a b] p2_mono [of b a] by (cases "a < b") auto

lemma p2_le: "(2::real) powi a \<le> 2 powi b \<longleftrightarrow> a \<le> b"
  using p2_strict_mono [of b a] p2_mono [of a b] by (cases "a \<le> b") auto

text \<open>The fields and the value of a packed lane.\<close>

lemma pack_fields:
  assumes e: "- 149 \<le> e" and m: "M \<le> 2 ^ 24" and sub: "M < 2 ^ 23 \<longrightarrow> e = - 149"
    and b: "nat (e + 149) * 2 ^ 23 + M < 0x7F800000"
  shows "fsign (pack s (nat (e + 149) * 2 ^ 23 + M)) = s"
    and "is_finite (pack s (nat (e + 149) * 2 ^ 23 + M))"
    and "real (mant (pack s (nat (e + 149) * 2 ^ 23 + M)))
           * 2 powi expo (pack s (nat (e + 149) * 2 ^ 23 + M)) = real M * 2 powi e"
proof -
  let ?E = "nat (e + 149)"
  let ?b = "?E * 2 ^ 23 + M"
  let ?w = "pack s ?b"
  have b31: "?b < 2 ^ 31" using b by simp
  show "fsign ?w = s" using b31 by (rule fsign_pack)
  have fe: "fexp ?w = ?b div 2 ^ 23" using b by (rule fexp_pack)
  have ff: "ffrac ?w = ?b mod 2 ^ 23" using b31 by (rule ffrac_pack)
  have lt: "?b div 2 ^ 23 < 255" using b by (intro less_mult_imp_div_less) simp
  show "is_finite ?w" unfolding is_finite_def fe by (rule lt)
  consider (sub) "M < 2 ^ 23" | (norm) "2 ^ 23 \<le> M" "M < 2 ^ 24" | (carry) "M = 2 ^ 24"
    using m by linarith
  then show "real (mant ?w) * 2 powi expo ?w = real M * 2 powi e"
  proof cases
    case sub
    with \<open>M < 2 ^ 23 \<longrightarrow> e = - 149\<close> have e0: "e = - 149" by simp
    then have bm: "?b = M" by simp
    have f1: "fexp (pack s M) = 0" using fexp_pack [of M s] sub by simp
    have f2: "ffrac (pack s M) = M" using ffrac_pack [of M s] sub by simp
    show ?thesis unfolding bm using e0 f1 f2 by (simp add: mant_def expo_def)
  next
    case norm
    have d: "?b div 2 ^ 23 = ?E + 1"
      using norm by (intro div_nat_eqI) simp_all
    have r: "?b mod 2 ^ 23 = M - 2 ^ 23"
      using norm d by (simp add: modulo_nat_def)
    have fe1: "fexp ?w = ?E + 1" unfolding fe by (rule d)
    have ff1: "ffrac ?w = M - 2 ^ 23" unfolding ff by (rule r)
    have "mant ?w = M" unfolding mant_def fe1 ff1 using norm by simp
    moreover have "expo ?w = e" unfolding expo_def fe1 using e by simp
    ultimately show ?thesis by simp
  next
    case carry
    have d: "?b div 2 ^ 23 = ?E + 2"
      using carry by (intro div_nat_eqI) simp_all
    have r: "?b mod 2 ^ 23 = 0"
      using carry d by (simp add: modulo_nat_def)
    have fe1: "fexp ?w = ?E + 2" unfolding fe by (rule d)
    have ff1: "ffrac ?w = 0" unfolding ff by (rule r)
    have "mant ?w = 2 ^ 23" unfolding mant_def fe1 ff1 by simp
    moreover have "expo ?w = e + 1" unfolding expo_def fe1 using e by simp
    ultimately show ?thesis using carry by (simp add: p2_add)
  qed
qed

lemma rd_e_lower: "- 149 \<le> rd_e N k"
  by (simp add: rd_e_def)

lemma rd_m_bounds:
  assumes "0 < N"
  shows "rd_m N k \<le> 2 ^ 24" and "rd_m N k < 2 ^ 23 \<longrightarrow> rd_e N k = - 149"
proof -
  let ?L = "bitlen N"
  let ?e = "rd_e N k"
  from bitlen_bounds [OF assms] have lo: "2 ^ (?L - 1) \<le> N" and hi: "N < 2 ^ ?L" by simp_all
  have Lpos: "0 < ?L" using assms by (rule bitlen_pos)
  have ege: "k + int ?L - 24 \<le> ?e" by (simp add: rd_e_def)
  have eeq: "?e \<noteq> - 149 \<Longrightarrow> ?e = k + int ?L - 24" by (simp add: rd_e_def max_def split: if_splits)
  show "rd_m N k \<le> 2 ^ 24"
  proof (cases "?e \<le> k")
    case True
    then have "nat (k - ?e) + ?L \<le> 24" using ege by simp
    then have p: "(2::nat) ^ (?L + nat (k - ?e)) \<le> 2 ^ 24"
      by (intro power_increasing) (simp_all add: add.commute)
    have "N * 2 ^ nat (k - ?e) < 2 ^ ?L * 2 ^ nat (k - ?e)" using hi by simp
    also have "\<dots> = 2 ^ (?L + nat (k - ?e))" by (simp add: power_add)
    also note p
    finally have "N * 2 ^ nat (k - ?e) < 2 ^ 24" .
    then show ?thesis using True by (simp add: rd_m_def)
  next
    case False
    let ?t = "nat (?e - k)"
    have "?L \<le> 24 + ?t" using ege False by simp
    then have "(2::nat) ^ ?L \<le> 2 ^ (24 + ?t)" by (intro power_increasing) simp_all
    with hi have "N < 2 ^ (24 + ?t)" by (rule less_le_trans)
    then have "N < 2 ^ 24 * 2 ^ ?t" by (simp only: power_add)
    then have "N div 2 ^ ?t < 2 ^ 24" by (rule less_mult_imp_div_less)
    then have "rne_shift N ?t \<le> 2 ^ 24" using rne_shift_upper [of N ?t] by simp
    then show ?thesis using False by (simp add: rd_m_def)
  qed
  show "rd_m N k < 2 ^ 23 \<longrightarrow> rd_e N k = - 149"
  proof (rule impI, rule ccontr)
    assume small: "rd_m N k < 2 ^ 23" and ne: "?e \<noteq> - 149"
    from eeq [OF ne] have e: "?e = k + int ?L - 24" .
    show False
    proof (cases "?e \<le> k")
      case True
      then have t: "nat (k - ?e) = 24 - ?L" using e by simp
      have L24: "?L \<le> 24" using True e by simp
      have "(2::nat) ^ 23 = 2 ^ (?L - 1) * 2 ^ (24 - ?L)"
        using L24 Lpos by (simp flip: power_add)
      also have "\<dots> \<le> N * 2 ^ (24 - ?L)" using lo by simp
      finally have "2 ^ 23 \<le> rd_m N k" using True t by (simp add: rd_m_def)
      with small show False by simp
    next
      case False
      then have t: "nat (?e - k) = ?L - 24" and L24: "24 < ?L" using e by simp_all
      have "?L - 1 = 23 + (?L - 24)" using L24 by simp
      then have "(2::nat) ^ 23 * 2 ^ (?L - 24) = 2 ^ (?L - 1)"
        by (simp only: power_add)
      also have "\<dots> \<le> N" by (rule lo)
      finally have "2 ^ 23 \<le> N div 2 ^ (?L - 24)"
        by (simp add: less_eq_div_iff_mult_less_eq)
      then have "2 ^ 23 \<le> rd_m N k"
        using False t rne_shift_lower [of N "?L - 24"] by (simp add: rd_m_def)
      with small show False by simp
    qed
  qed
qed

lemma round_dy_val:
  assumes "0 < N" and "nat (rd_e N k + 149) * 2 ^ 23 + rd_m N k < 0x7F800000"
  shows "fsign (round_dy s N k) = s"
    and "is_finite (round_dy s N k)"
    and "real (mant (round_dy s N k)) * 2 powi expo (round_dy s N k)
           = real (rd_m N k) * 2 powi rd_e N k"
proof -
  have r: "round_dy s N k = pack s (nat (rd_e N k + 149) * 2 ^ 23 + rd_m N k)"
    using assms by (simp add: round_dy_def Let_def)
  note pf = pack_fields [OF rd_e_lower rd_m_bounds(1) [OF assms(1)] rd_m_bounds(2) [OF assms(1)]
      assms(2), of s]
  show "fsign (round_dy s N k) = s" unfolding r by (rule pf(1))
  show "is_finite (round_dy s N k)" unfolding r by (rule pf(2))
  show "real (mant (round_dy s N k)) * 2 powi expo (round_dy s N k)
           = real (rd_m N k) * 2 powi rd_e N k" unfolding r by (rule pf(3))
qed

lemma rd_exact:
  assumes "rd_e N k \<le> k \<or> 2 ^ nat (rd_e N k - k) dvd N"
  shows "real (rd_m N k) * 2 powi rd_e N k = real N * 2 powi k"
proof (cases "rd_e N k \<le> k")
  case True
  then have "real (rd_m N k) = real N * 2 powi (k - rd_e N k)"
    by (simp add: rd_m_def p2_nat)
  then have "real (rd_m N k) * 2 powi rd_e N k = real N * (2 powi (k - rd_e N k) * 2 powi rd_e N k)"
    by simp
  also have "\<dots> = real N * 2 powi k" by (simp flip: p2_add)
  finally show ?thesis .
next
  case False
  let ?t = "nat (rd_e N k - k)"
  from False assms have d: "2 ^ ?t dvd N" by simp
  then have m: "rd_m N k = N div 2 ^ ?t" using False by (simp add: rd_m_def rne_shift_exact)
  from d have "N = (N div 2 ^ ?t) * 2 ^ ?t" by simp
  then have "real N = real (N div 2 ^ ?t) * 2 ^ ?t"
    by (metis of_nat_mult of_nat_numeral of_nat_power)
  also have "(2::real) ^ ?t = 2 powi (rd_e N k - k)" using False by (simp add: p2_nat)
  finally have "real N * 2 powi k = real (rd_m N k) * (2 powi (rd_e N k - k) * 2 powi k)"
    using m by simp
  also have "\<dots> = real (rd_m N k) * 2 powi rd_e N k" by (simp flip: p2_add)
  finally show ?thesis by simp
qed

lemma representable:
  assumes N: "0 < N" and eq: "real N * 2 powi k = real M * 2 powi j"
    and M: "M < 2 ^ 24" and j: "- 149 \<le> j"
  shows "rd_e N k \<le> j" and "rd_e N k \<le> k \<or> 2 ^ nat (rd_e N k - k) dvd N"
proof -
  let ?L = "bitlen N"
  from bitlen_bounds [OF N] have lo: "2 ^ (?L - 1) \<le> N" by simp
  have Lpos: "0 < ?L" using N by (rule bitlen_pos)
  have "(2::real) powi (int ?L - 1 + k) = 2 powi (int (?L - 1)) * 2 powi k"
    using Lpos by (simp add: p2_add of_nat_diff)
  also have "\<dots> = real (2 ^ (?L - 1)) * 2 powi k" by simp
  also have "\<dots> \<le> real N * 2 powi k"
    using lo by (intro mult_right_mono) (simp_all only: of_nat_le_iff p2_pos less_imp_le)
  also have "\<dots> = real M * 2 powi j" by (rule eq)
  also have "\<dots> < real (2 ^ 24) * 2 powi j"
    using M by (intro mult_strict_right_mono) (simp_all only: of_nat_less_iff p2_pos)
  also have "\<dots> = 2 powi (24 + j)" by (simp add: p2_add)
  finally have "int ?L - 1 + k < 24 + j" by (simp only: p2_less)
  then show e_le: "rd_e N k \<le> j" using j by (simp add: rd_e_def)
  show "rd_e N k \<le> k \<or> 2 ^ nat (rd_e N k - k) dvd N"
  proof (cases "rd_e N k \<le> k")
    case True then show ?thesis ..
  next
    case False
    then have kj: "k \<le> j" using e_le by simp
    have "real N = real N * (2 powi k * 2 powi (- k))" by (simp flip: p2_add)
    also have "\<dots> = real M * (2 powi j * 2 powi (- k))" using eq by (simp add: mult.assoc [symmetric])
    also have "\<dots> = real M * 2 powi (j - k)" by (simp flip: p2_add)
    also have "\<dots> = real (M * 2 ^ nat (j - k))" using kj by (simp add: p2_nat)
    finally have n: "N = M * 2 ^ nat (j - k)" by (simp only: of_nat_eq_iff)
    have "nat (rd_e N k - k) \<le> nat (j - k)" using e_le by simp
    then have "(2::nat) ^ nat (rd_e N k - k) dvd 2 ^ nat (j - k)" by (rule le_imp_power_dvd)
    then have "2 ^ nat (rd_e N k - k) dvd N" unfolding n by (rule dvd_mult)
    then show ?thesis ..
  qed
qed

lemma round_dy_exact:
  assumes N: "0 < N" and eq: "real N * 2 powi k = real M * 2 powi j"
    and M: "M < 2 ^ 24" and j: "- 149 \<le> j" "j \<le> 103"
  shows "fsign (round_dy s N k) = s"
    and "is_finite (round_dy s N k)"
    and "real (mant (round_dy s N k)) * 2 powi expo (round_dy s N k) = real N * 2 powi k"
proof -
  note rp = representable [OF N eq M j(1)]
  have "nat (rd_e N k + 149) \<le> 252" using rp(1) j(2) by simp
  then have "nat (rd_e N k + 149) * 2 ^ 23 \<le> 252 * 2 ^ 23" by (rule mult_le_mono1)
  then have b: "nat (rd_e N k + 149) * 2 ^ 23 + rd_m N k < 0x7F800000"
    using rd_m_bounds(1) [OF N, of k] by simp
  note rv = round_dy_val [OF N b, of s]
  show "fsign (round_dy s N k) = s" by (rule rv(1))
  show "is_finite (round_dy s N k)" by (rule rv(2))
  show "real (mant (round_dy s N k)) * 2 powi expo (round_dy s N k) = real N * 2 powi k"
    using rv(3) rd_exact [OF rp(2)] by simp
qed

lemma valof_alt: "valof w = (if fsign w then - 1 else 1) * (real (mant w) * 2 powi expo w)"
  by (simp add: valof_def)

lemma valof_smant: "k \<le> expo a \<Longrightarrow> valof a = real_of_int (smant a k) * 2 powi k"
proof -
  assume k: "k \<le> expo a"
  have "(2::real) powi expo a = 2 powi (expo a - k) * 2 powi k" by (simp flip: p2_add)
  also have "\<dots> = 2 ^ nat (expo a - k) * 2 powi k" using k by (simp add: p2_nat)
  finally show ?thesis by (simp add: valof_def smant_def)
qed

lemma pack_zero: "fsign (pack s 0) = s" "is_finite (pack s 0)" "valof (pack s 0) = 0"
proof -
  show "fsign (pack s 0) = s" using fsign_pack [of 0 s] by simp
  have "fexp (pack s 0) = 0" using fexp_pack [of 0 s] by simp
  moreover have "ffrac (pack s 0) = 0" using ffrac_pack [of 0 s] by simp
  ultimately show "is_finite (pack s 0)" "valof (pack s 0) = 0"
    by (simp_all add: is_finite_def valof_def mant_def)
qed

lemma fadd_finite:
  "is_finite a \<Longrightarrow> is_finite b \<Longrightarrow>
   fadd a b = (if smant a (min (expo a) (expo b)) + smant b (min (expo a) (expo b)) = 0
               then pack (fsign a \<and> fsign b) 0
               else round_dy (smant a (min (expo a) (expo b)) + smant b (min (expo a) (expo b)) < 0)
                      (nat \<bar>smant a (min (expo a) (expo b)) + smant b (min (expo a) (expo b))\<bar>)
                      (min (expo a) (expo b)))"
  by (simp add: fadd_def Let_def finite_not_nan_inf)

lemma fadd_exact:
  assumes fa: "is_finite a" and fb: "is_finite b"
    and rep: "valof a + valof b = real_of_int z * 2 powi j"
    and z: "\<bar>z\<bar> < 2 ^ 24" and j: "- 149 \<le> j" "j \<le> 103"
  shows "valof (fadd a b) = valof a + valof b"
    and "is_finite (fadd a b)"
    and "fsign (fadd a b) = (if valof a + valof b = 0 then fsign a \<and> fsign b
                             else valof a + valof b < 0)"
proof -
  define k where "k = min (expo a) (expo b)"
  define x where "x = smant a k + smant b k"
  have ka: "k \<le> expo a" and kb: "k \<le> expo b" by (simp_all add: k_def)
  have sum: "valof a + valof b = real_of_int x * 2 powi k"
    by (simp add: x_def valof_smant [OF ka] valof_smant [OF kb] algebra_simps)
  have pk: "0 < (2::real) powi k" by (rule p2_pos)
  have zero_iff: "valof a + valof b = 0 \<longleftrightarrow> x = 0"
    unfolding sum using pk by simp
  have neg_iff: "valof a + valof b < 0 \<longleftrightarrow> x < 0"
    unfolding sum using mult_less_cancel_right_pos [OF pk, of "real_of_int x" 0] by simp
  have fin: "fadd a b = (if x = 0 then pack (fsign a \<and> fsign b) 0
                         else round_dy (x < 0) (nat \<bar>x\<bar>) k)"
    unfolding x_def k_def using fa fb by (rule fadd_finite)
  have "valof (fadd a b) = valof a + valof b \<and> is_finite (fadd a b) \<and>
       fsign (fadd a b) = (if valof a + valof b = 0 then fsign a \<and> fsign b
                             else valof a + valof b < 0)"
  proof (cases "x = 0")
    case True
    then have "fadd a b = pack (fsign a \<and> fsign b) 0" by (simp add: fin)
    then show ?thesis using True zero_iff by (simp add: pack_zero)
  next
    case False
    define N where "N = nat \<bar>x\<bar>"
    have f: "fadd a b = round_dy (x < 0) N k" using False by (simp add: fin N_def)
    have N: "0 < N" using False by (simp add: N_def)
    have "real N * 2 powi k = \<bar>real_of_int x * 2 powi k\<bar>"
      by (simp add: abs_mult N_def)
    also have "\<dots> = \<bar>real_of_int z * 2 powi j\<bar>" using sum rep by simp
    also have "\<dots> = real (nat \<bar>z\<bar>) * 2 powi j" by (simp add: abs_mult)
    finally have eq: "real N * 2 powi k = real (nat \<bar>z\<bar>) * 2 powi j" .
    have M: "nat \<bar>z\<bar> < 2 ^ 24" using z by simp
    note re = round_dy_exact [OF N eq M j, of "x < 0"]
    have v: "valof (fadd a b) = (if x < 0 then - 1 else 1) * (real N * 2 powi k)"
      unfolding f valof_alt re(1) using re(3) by simp
    have "valof (fadd a b) = real_of_int x * 2 powi k"
      unfolding v by (cases "x < 0") (simp_all add: N_def)
    then show ?thesis
      using False zero_iff neg_iff re(1,2) sum f by simp
  qed
  then show "valof (fadd a b) = valof a + valof b" and "is_finite (fadd a b)"
    and "fsign (fadd a b) = (if valof a + valof b = 0 then fsign a \<and> fsign b
                             else valof a + valof b < 0)"
    by simp_all
qed

lemma bit_abs_mask: "bit gen_abs_mask n \<longleftrightarrow> n < 31"
  unfolding sign_abs_bits by (auto simp add: bit_simps bit_sign_mask)

lemma fields_xor_sign:
  "fexp ((a AND gen_sign_mask) XOR r) = fexp r"
  "ffrac ((a AND gen_sign_mask) XOR r) = ffrac r"
  "fsign ((a AND gen_sign_mask) XOR r) = (fsign a \<noteq> fsign r)"
proof -
  have "take_bit 8 (drop_bit 23 ((a AND gen_sign_mask) XOR r)) = take_bit 8 (drop_bit 23 r)"
    by (rule bit_word_eqI) (auto simp add: bit_simps bit_sign_mask)
  then show "fexp ((a AND gen_sign_mask) XOR r) = fexp r" by (simp only: fexp_def)
  have "take_bit 23 ((a AND gen_sign_mask) XOR r) = take_bit 23 r"
    by (rule bit_word_eqI) (auto simp add: bit_simps bit_sign_mask)
  then show "ffrac ((a AND gen_sign_mask) XOR r) = ffrac r" by (simp only: ffrac_def)
  show "fsign ((a AND gen_sign_mask) XOR r) = (fsign a \<noteq> fsign r)"
    by (simp add: fsign_def bit_xor_iff bit_and_iff bit_sign_mask)
qed

lemma fields_and_abs:
  "fexp (x AND gen_abs_mask) = fexp x"
  "ffrac (x AND gen_abs_mask) = ffrac x"
  "\<not> fsign (x AND gen_abs_mask)"
proof -
  have "take_bit 8 (drop_bit 23 (x AND gen_abs_mask)) = take_bit 8 (drop_bit 23 x)"
    by (rule bit_word_eqI) (auto simp add: bit_simps bit_abs_mask)
  then show "fexp (x AND gen_abs_mask) = fexp x" by (simp only: fexp_def)
  have "take_bit 23 (x AND gen_abs_mask) = take_bit 23 x"
    by (rule bit_word_eqI) (auto simp add: bit_simps bit_abs_mask)
  then show "ffrac (x AND gen_abs_mask) = ffrac x" by (simp only: ffrac_def)
  show "\<not> fsign (x AND gen_abs_mask)"
    by (simp add: fsign_def bit_and_iff bit_abs_mask)
qed

lemma fields_fneg:
  "fexp (fneg x) = fexp x" "ffrac (fneg x) = ffrac x" "fsign (fneg x) = (\<not> fsign x)"
proof -
  have "take_bit 8 (drop_bit 23 (x XOR gen_sign_mask)) = take_bit 8 (drop_bit 23 x)"
    by (rule bit_word_eqI) (auto simp add: bit_simps bit_sign_mask)
  then show "fexp (fneg x) = fexp x" by (simp only: fexp_def fneg_def)
  have "take_bit 23 (x XOR gen_sign_mask) = take_bit 23 x"
    by (rule bit_word_eqI) (auto simp add: bit_simps bit_sign_mask)
  then show "ffrac (fneg x) = ffrac x" by (simp only: ffrac_def fneg_def)
  show "fsign (fneg x) = (\<not> fsign x)"
    by (simp add: fsign_def fneg_def bit_xor_iff bit_sign_mask)
qed

lemma valof_fneg: "valof (fneg x) = - valof x"
proof -
  have m: "mant (fneg x) = mant x" by (simp add: mant_def fields_fneg)
  have e: "expo (fneg x) = expo x" by (simp add: expo_def fields_fneg)
  show ?thesis unfolding valof_alt m e fields_fneg(3) by simp
qed

lemma is_finite_fneg: "is_finite (fneg x) = is_finite x"
  by (simp add: is_finite_def fields_fneg)

lemma mag_nonneg: "0 \<le> real (mant w) * 2 powi expo w"
  by simp

lemma valof_abs: "valof (x AND gen_abs_mask) = \<bar>valof x\<bar>"
proof -
  have m: "mant (x AND gen_abs_mask) = mant x" by (simp add: mant_def fields_and_abs)
  have e: "expo (x AND gen_abs_mask) = expo x" by (simp add: expo_def fields_and_abs)
  show ?thesis unfolding valof_alt m e using fields_and_abs(3) [of x]
    by (simp add: abs_mult)
qed

lemma is_finite_abs: "is_finite (x AND gen_abs_mask) = is_finite x"
  by (simp add: is_finite_def fields_and_abs)

lemma is_nan_abs: "is_nan (x AND gen_abs_mask) = is_nan x"
  by (simp add: is_nan_def fields_and_abs)

lemma gen_one_not_nan: "\<not> is_nan gen_one"
  by (simp add: is_nan_def gen_one_def fexp_def)

lemma valof_xor_sign:
  "valof ((a AND gen_sign_mask) XOR r) = (if fsign a then - valof r else valof r)"
proof -
  have m: "mant ((a AND gen_sign_mask) XOR r) = mant r" by (simp add: mant_def fields_xor_sign)
  have e: "expo ((a AND gen_sign_mask) XOR r) = expo r" by (simp add: expo_def fields_xor_sign)
  show ?thesis unfolding valof_alt m e fields_xor_sign(3)
    by (cases "fsign a"; cases "fsign r") simp_all
qed

lemma is_finite_xor_sign: "is_finite ((a AND gen_sign_mask) XOR r) = is_finite r"
  by (simp add: is_finite_def fields_xor_sign)

lemma fsub_exact:
  assumes fa: "is_finite a" and fb: "is_finite b"
    and rep: "valof a - valof b = real_of_int z * 2 powi j"
    and z: "\<bar>z\<bar> < 2 ^ 24" and j: "- 149 \<le> j" "j \<le> 103"
  shows "valof (fsub a b) = valof a - valof b"
    and "is_finite (fsub a b)"
    and "fsign (fsub a b) = (if valof a - valof b = 0 then fsign a \<and> \<not> fsign b
                             else valof a - valof b < 0)"
proof -
  have fb': "is_finite (fneg b)" using fb by (simp add: is_finite_fneg)
  have rep': "valof a + valof (fneg b) = real_of_int z * 2 powi j"
    using rep by (simp add: valof_fneg)
  note fe = fadd_exact [OF fa fb' rep' z j]
  show "valof (fsub a b) = valof a - valof b" using fe(1) by (simp add: fsub_def valof_fneg)
  show "is_finite (fsub a b)" using fe(2) by (simp add: fsub_def)
  show "fsign (fsub a b) = (if valof a - valof b = 0 then fsign a \<and> \<not> fsign b
                             else valof a - valof b < 0)"
    using fe(3) by (simp add: fsub_def valof_fneg fields_fneg)
qed

lemma key_mag: "unat (w AND gen_abs_mask) = fexp w * 2 ^ 23 + ffrac w"
proof -
  have "w AND gen_abs_mask = take_bit 31 w"
    by (rule bit_word_eqI) (auto simp add: bit_simps bit_abs_mask)
  then have "unat (w AND gen_abs_mask) = unat w mod 2 ^ 31"
    by (simp add: take_bit_eq_mod unat_mod)
  also have "\<dots> = unat w mod (2 ^ 23 * 256)" by simp
  also have "\<dots> = 2 ^ 23 * (unat w div 2 ^ 23 mod 256) + unat w mod 2 ^ 23"
    by (rule mod_mult2_eq)
  finally show ?thesis by (simp add: fexp_unat ffrac_unat)
qed

lemma mag_upper: "real (mant w) * 2 powi expo w < 2 powi (int (fexp w) - 126)"
proof (cases "fexp w = 0")
  case True
  have "real (ffrac w) * 2 powi (- 149) < real (2 ^ 23) * 2 powi (- 149)"
    using ffrac_less [of w] by (intro mult_strict_right_mono) (simp_all only: of_nat_less_iff p2_pos)
  also have "\<dots> = 2 powi (- 126)" by (simp add: power_int_minus field_simps)
  finally show ?thesis using True by (simp add: mant_def expo_def)
next
  case False
  then have e: "expo w = int (fexp w) - 150" by (simp add: expo_def max_def)
  have "real (mant w) * 2 powi expo w < real (2 ^ 24) * 2 powi expo w"
    using mant_less [of w] by (intro mult_strict_right_mono) (simp_all only: of_nat_less_iff p2_pos)
  also have "\<dots> = 2 powi (24 + expo w)" by (simp add: p2_add)
  also have "24 + expo w = int (fexp w) - 126" using e by simp
  finally show ?thesis .
qed

lemma mag_lower:
  assumes "0 < fexp w"
  shows "2 powi (int (fexp w) - 127) \<le> real (mant w) * 2 powi expo w"
proof -
  from assms have e: "expo w = int (fexp w) - 150" by (simp add: expo_def max_def)
  have "(2::real) powi (int (fexp w) - 127) = 2 powi (23 + expo w)" using e by simp
  also have "\<dots> = real (2 ^ 23) * 2 powi expo w" by (simp add: p2_add)
  also have "\<dots> \<le> real (mant w) * 2 powi expo w"
    using assms by (intro mult_right_mono) (simp_all add: mant_def)
  finally show ?thesis .
qed

lemma mag_strict_mono:
  assumes "fexp a * 2 ^ 23 + ffrac a < fexp b * 2 ^ 23 + ffrac b"
  shows "real (mant a) * 2 powi expo a < real (mant b) * 2 powi expo b"
proof (cases "fexp a = fexp b")
  case True
  then have "mant a < mant b" "expo a = expo b" using assms by (simp_all add: mant_def expo_def)
  then show ?thesis by simp
next
  case False
  have "fexp a < fexp b"
  proof (rule ccontr)
    assume "\<not> fexp a < fexp b"
    then have "fexp b + 1 \<le> fexp a" using False by simp
    then have "(fexp b + 1) * 2 ^ 23 \<le> fexp a * 2 ^ 23" by (rule mult_le_mono1)
    then show False using assms ffrac_less [of b] by simp
  qed
  then have pos: "0 < fexp b" and le: "int (fexp a) - 126 \<le> int (fexp b) - 127" by simp_all
  have "real (mant a) * 2 powi expo a < 2 powi (int (fexp a) - 126)" by (rule mag_upper)
  also have "\<dots> \<le> 2 powi (int (fexp b) - 127)" using le by (rule p2_mono)
  also have "\<dots> \<le> real (mant b) * 2 powi expo b" using pos by (rule mag_lower)
  finally show ?thesis .
qed

lemma mag_eq:
  assumes "fexp a * 2 ^ 23 + ffrac a = fexp b * 2 ^ 23 + ffrac b"
  shows "real (mant a) * 2 powi expo a = real (mant b) * 2 powi expo b"
proof -
  have "(fexp a * 2 ^ 23 + ffrac a) div 2 ^ 23 = fexp a" "(fexp a * 2 ^ 23 + ffrac a) mod 2 ^ 23 = ffrac a"
    "(fexp b * 2 ^ 23 + ffrac b) div 2 ^ 23 = fexp b" "(fexp b * 2 ^ 23 + ffrac b) mod 2 ^ 23 = ffrac b"
    using ffrac_less [of a] ffrac_less [of b] by simp_all
  with assms have "fexp a = fexp b" "ffrac a = ffrac b" by metis+
  then show ?thesis by (simp add: mant_def expo_def)
qed

lemma mag_less_iff:
  "real (mant a) * 2 powi expo a < real (mant b) * 2 powi expo b
   \<longleftrightarrow> fexp a * 2 ^ 23 + ffrac a < fexp b * 2 ^ 23 + ffrac b"
  using mag_strict_mono [of a b] mag_strict_mono [of b a] mag_eq [of a b]
  by (metis less_irrefl less_asym linorder_neqE_nat)

lemma mag_zero_iff: "real (mant a) * 2 powi expo a = 0 \<longleftrightarrow> fexp a * 2 ^ 23 + ffrac a = 0"
  by (auto simp add: mant_def)

lemma flt_valof:
  assumes "\<not> is_nan a" "\<not> is_nan b"
  shows "flt a b \<longleftrightarrow> valof a < valof b"
proof -
  define ka where "ka = fexp a * 2 ^ 23 + ffrac a"
  define kb where "kb = fexp b * 2 ^ 23 + ffrac b"
  define ma where "ma = real (mant a) * 2 powi expo a"
  define mb where "mb = real (mant b) * 2 powi expo b"
  have fk: "fkey a = (if fsign a then - int ka else int ka)"
    "fkey b = (if fsign b then - int kb else int kb)"
    by (simp_all add: fkey_def key_mag ka_def kb_def)
  have va: "valof a = (if fsign a then - ma else ma)" "valof b = (if fsign b then - mb else mb)"
    by (simp_all add: valof_def ma_def mb_def)
  have nn: "0 \<le> ma" "0 \<le> mb" by (simp_all add: ma_def mb_def)
  have z: "ma = 0 \<longleftrightarrow> ka = 0" "mb = 0 \<longleftrightarrow> kb = 0"
    unfolding ma_def mb_def ka_def kb_def by (rule mag_zero_iff)+
  have l: "ma < mb \<longleftrightarrow> ka < kb" "mb < ma \<longleftrightarrow> kb < ka"
    unfolding ma_def mb_def ka_def kb_def by (rule mag_less_iff)+
  have "fkey a < fkey b \<longleftrightarrow> valof a < valof b"
  proof (cases "fsign a"; cases "fsign b")
    assume "fsign a" "fsign b"
    then show ?thesis using l by (simp add: fk va)
  next
    assume "fsign a" "\<not> fsign b"
    then show ?thesis using nn z by (simp add: fk va) linarith
  next
    assume "\<not> fsign a" "fsign b"
    then show ?thesis using nn by (simp add: fk va) 
  next
    assume "\<not> fsign a" "\<not> fsign b"
    then show ?thesis using l by (simp add: fk va)
  qed
  then show ?thesis using assms by (simp add: flt_def)
qed

lemma fgt_valof: "\<not> is_nan a \<Longrightarrow> \<not> is_nan b \<Longrightarrow> fgt a b \<longleftrightarrow> valof b < valof a"
  by (simp add: fgt_def flt_valof)

subsection \<open>Rounding by the magic constant\<close>

lemma rne_shift_nearest:
  fixes m t :: nat
  defines "y \<equiv> real m / 2 ^ t" and "r \<equiv> rne_shift m t"
  shows "\<bar>y - real r\<bar> \<le> 1 / 2" and "\<bar>y - real r\<bar> = 1 / 2 \<longrightarrow> even r"
proof -
  define q where "q = m div 2 ^ t"
  define d where "d = m mod 2 ^ t"
  have m: "m = q * 2 ^ t + d" unfolding q_def d_def by (rule div_mult_mod_eq [symmetric])
  have p: "(0::real) < 2 ^ t" by simp
  have "real m = real q * 2 ^ t + real d"
    by (subst m) (simp only: of_nat_add of_nat_mult of_nat_power of_nat_numeral)
  then have y: "y = real q + real d / 2 ^ t" using p by (simp add: y_def field_simps)
  have "d < 2 ^ t" by (simp add: d_def)
  then have "real d < real (2 ^ t)" by (simp only: of_nat_less_iff)
  then have dl: "real d < 2 ^ t" by simp
  consider (lo) "2 * d < 2 ^ t" | (hi) "2 ^ t < 2 * d" | (tie) "2 * d = 2 ^ t" by linarith
  then have "\<bar>y - real r\<bar> \<le> 1 / 2 \<and> (\<bar>y - real r\<bar> = 1 / 2 \<longrightarrow> even r)"
  proof cases
    case lo
    then have r: "r = q" by (simp add: r_def rne_shift_def Let_def q_def d_def)
    from lo have "real (2 * d) < real (2 ^ t)" by (simp only: of_nat_less_iff)
    then have "2 * real d < 2 ^ t" by simp
    then have "real d / 2 ^ t < 1 / 2" using p by (simp add: field_simps)
    moreover have "0 \<le> real d / 2 ^ t" by simp
    ultimately show ?thesis unfolding y r by simp
  next
    case hi
    then have r: "r = q + 1" by (simp add: r_def rne_shift_def Let_def q_def d_def)
    from hi have "real (2 ^ t) < real (2 * d)" by (simp only: of_nat_less_iff)
    then have "2 ^ t < 2 * real d" by simp
    then have 1: "1 / 2 < real d / 2 ^ t" using p by (simp add: field_simps)
    have 2: "real d / 2 ^ t < 1" using dl p by (simp add: field_simps)
    show ?thesis unfolding y r using 1 2 by simp
  next
    case tie
    then have r: "r = (if even q then q else q + 1)"
      by (simp add: r_def rne_shift_def Let_def q_def d_def)
    then have ev: "even r" by simp
    from tie have "real (2 * d) = real (2 ^ t)" by (simp only: of_nat_eq_iff)
    then have "2 * real d = 2 ^ t" by simp
    then have h: "real d / 2 ^ t = 1 / 2" using p by (simp add: field_simps)
    have "\<bar>y - real r\<bar> = 1 / 2" unfolding y h r by simp
    then show ?thesis using ev by simp
  qed
  then show "\<bar>y - real r\<bar> \<le> 1 / 2" and "\<bar>y - real r\<bar> = 1 / 2 \<longrightarrow> even r" by simp_all
qed

lemma two_to_23_fields:
  "is_finite two_to_23_ps" "\<not> fsign two_to_23_ps" "mant two_to_23_ps = 2 ^ 23"
  "expo two_to_23_ps = 0" "valof two_to_23_ps = 2 ^ 23"
  by (simp_all add: two_to_23_ps_def is_finite_def fsign_def mant_def expo_def valof_def
      fexp_def ffrac_def)

lemma small_expo:
  assumes "real (mant a) * 2 powi expo a < 2 ^ 23"
  shows "expo a \<le> - 1"
proof (cases "fexp a = 0")
  case True then show ?thesis by (simp add: expo_def)
next
  case False
  then have pos: "0 < fexp a" by simp
  have "(2::real) powi (int (fexp a) - 127) \<le> real (mant a) * 2 powi expo a"
    using pos by (rule mag_lower)
  also have "\<dots> < 2 powi 23" using assms by simp
  finally have "int (fexp a) - 127 < 23" by (simp only: p2_less)
  then show ?thesis using pos by (simp add: expo_def max_def)
qed

lemma round_magic:
  assumes fa: "is_finite a" and sa: "\<not> fsign a" and small: "valof a < 2 ^ 23"
  defines "r \<equiv> rne_shift (mant a) (nat (- expo a))"
  shows "valof (fsub (fadd a two_to_23_ps) two_to_23_ps) = real r"
    and "is_finite (fsub (fadd a two_to_23_ps) two_to_23_ps)"
    and "\<not> fsign (fsub (fadd a two_to_23_ps) two_to_23_ps)"
    and "valof a = real (mant a) / 2 ^ nat (- expo a)"
    and "r \<le> 2 ^ 23"
proof -
  define m where "m = mant a"
  define e where "e = expo a"
  define t where "t = nat (- e)"
  have va: "valof a = real m * 2 powi e" using sa by (simp add: valof_def m_def e_def)
  have e1: "e \<le> - 1" using small_expo [of a] small va by (simp add: m_def e_def)
  have te: "e = - int t" using e1 by (simp add: t_def)
  have p: "(2::real) powi e = 1 / 2 ^ t" unfolding te by (simp add: power_int_minus field_simps)
  have va': "valof a = real m / 2 ^ t" unfolding va p by simp
  have "real m < 2 ^ 23 * 2 ^ t" using small unfolding va' by (simp add: field_simps)
  then have "real m < real (2 ^ 23 * 2 ^ t)" by simp
  then have ml: "m < 2 ^ 23 * 2 ^ t" by (simp only: of_nat_less_iff)
  let ?T = two_to_23_ps
  have k: "min (expo a) (expo ?T) = e" using e1 two_to_23_fields(4) by (simp add: e_def)
  have s1: "smant a e = int m" using sa by (simp add: smant_def m_def e_def)
  have s2: "smant ?T e = int (2 ^ 23 * 2 ^ t)"
    using two_to_23_fields(2,3,4) by (simp add: smant_def te)
  define N where "N = m + 2 ^ 23 * 2 ^ t"
  have x: "smant a e + smant ?T e = int N" unfolding s1 s2 N_def by simp
  have Npos: "0 < N" by (simp add: N_def)
  have f1: "fadd a ?T = round_dy False N e"
    using fadd_finite [OF fa two_to_23_fields(1)] Npos unfolding k x by simp
  have "2 ^ (23 + t) \<le> N" by (simp add: N_def power_add)
  moreover have "N < 2 ^ Suc (23 + t)" using ml by (simp add: N_def power_add)
  ultimately have bl: "bitlen N = Suc (23 + t)" by (rule bitlen_unique)
  have rde: "rd_e N e = 0" by (simp add: rd_e_def bl te)
  have "rd_m N e = rne_shift N t" using e1 by (simp add: rd_m_def rde t_def)
  also have "\<dots> = 2 ^ 23 + rne_shift m t" unfolding N_def by (rule rne_shift_add) simp
  finally have rdm: "rd_m N e = 2 ^ 23 + r" by (simp add: r_def m_def t_def e_def)
  have "m div 2 ^ t < 2 ^ 23" using ml by (rule less_mult_imp_div_less)
  then show rle: "r \<le> 2 ^ 23"
    using rne_shift_upper [of m t] by (simp add: r_def m_def t_def e_def)
  have b: "nat (rd_e N e + 149) * 2 ^ 23 + rd_m N e < 0x7F800000"
    using rle by (simp add: rde rdm)
  note rv = round_dy_val [OF Npos b, of False]
  have v1: "valof (fadd a ?T) = 2 ^ 23 + real r"
    unfolding f1 valof_alt rv(1) using rv(3) by (simp add: rde rdm)
  have fin1: "is_finite (fadd a ?T)" unfolding f1 by (rule rv(2))
  have sg1: "\<not> fsign (fadd a ?T)" unfolding f1 using rv(1) by simp
  have rep: "valof (fadd a ?T) - valof ?T = real_of_int (int r) * 2 powi 0"
    by (simp add: v1 two_to_23_fields(5))
  have z: "\<bar>int r\<bar> < 2 ^ 24" using rle by simp
  note fs = fsub_exact [OF fin1 two_to_23_fields(1) rep z]
  show "valof (fsub (fadd a ?T) ?T) = real r" using fs(1) rep by simp
  show "is_finite (fsub (fadd a ?T) ?T)" using fs(2) by simp
  have "fsign (fsub (fadd a ?T) ?T) =
         (if valof (fadd a ?T) - valof ?T = 0 then fsign (fadd a ?T) \<and> \<not> fsign ?T
          else valof (fadd a ?T) - valof ?T < 0)" using fs(3) by simp
  then show "\<not> fsign (fsub (fadd a ?T) ?T)" using sg1 by (simp add: rep)
  show "valof a = real (mant a) / 2 ^ nat (- expo a)"
    using va' by (simp add: m_def t_def e_def)
qed

lemma round_float_val:
  assumes fin: "is_finite x" and small: "\<bar>valof x\<bar> < 2 ^ 23"
  shows "\<exists>n::int. valof (vec_round_float x) = of_int n \<and> is_finite (vec_round_float x)
           \<and> \<bar>valof x - of_int n\<bar> \<le> 1 / 2 \<and> (\<bar>valof x - of_int n\<bar> = 1 / 2 \<longrightarrow> even n)
           \<and> \<bar>n\<bar> \<le> 2 ^ 23"
proof -
  define a where "a = x AND gen_abs_mask"
  define R where "R = fsub (fadd a two_to_23_ps) two_to_23_ps"
  define r where "r = rne_shift (mant a) (nat (- expo a))"
  have v: "vec_round_float x = (x AND gen_sign_mask) XOR R"
    by (simp add: vec_round_float_def Let_def sign_xor_is_abs a_def R_def)
  have fa: "is_finite a" using fin by (simp add: a_def is_finite_abs)
  have sa: "\<not> fsign a" by (simp add: a_def fields_and_abs)
  have va: "valof a = \<bar>valof x\<bar>" by (simp add: a_def valof_abs)
  have sm: "valof a < 2 ^ 23" using small va by simp
  note rm = round_magic [OF fa sa sm, folded r_def R_def]
  define y where "y = real (mant a) / 2 ^ nat (- expo a)"
  note nr = rne_shift_nearest [of "mant a" "nat (- expo a)", folded r_def y_def]
  have ya: "y = \<bar>valof x\<bar>" using rm(4) va by (simp add: y_def)
  have vx: "valof x = (if fsign x then - y else y)"
    unfolding ya valof_alt by (simp add: abs_mult)
  define n where "n = (if fsign x then - int r else int r)"
  have 1: "valof (vec_round_float x) = of_int n"
    unfolding v valof_xor_sign rm(1) n_def by simp
  have 2: "is_finite (vec_round_float x)" unfolding v is_finite_xor_sign by (rule rm(2))
  have d: "\<bar>valof x - of_int n\<bar> = \<bar>y - real r\<bar>"
    unfolding vx n_def by (cases "fsign x") (simp_all add: abs_minus_commute)
  have 3: "\<bar>valof x - of_int n\<bar> \<le> 1 / 2" unfolding d by (rule nr(1))
  have 4: "\<bar>valof x - of_int n\<bar> = 1 / 2 \<longrightarrow> even n"
    unfolding d using nr(2) by (simp add: n_def)
  have 5: "\<bar>n\<bar> \<le> 2 ^ 23" using rm(5) by (simp add: n_def)
  from 1 2 3 4 5 show ?thesis by blast
qed

lemma gen_one_fields: "is_finite gen_one" "valof gen_one = 1"
  by (simp_all add: gen_one_def is_finite_def valof_def fsign_def mant_def expo_def fexp_def
      ffrac_def)

lemma zero_fields: "is_finite 0" "valof 0 = 0"
  by (simp_all add: is_finite_def valof_def fsign_def mant_def expo_def fexp_def ffrac_def)

lemma mask_and_one: "mask_of c AND gen_one = (if c then gen_one else 0)"
  by (simp add: mask_of_def)

lemma floor_float_val:
  assumes fin: "is_finite x" and small: "\<bar>valof x\<bar> < 2 ^ 23"
  shows "valof (vec_floor_float x) = of_int \<lfloor>valof x\<rfloor>" and "is_finite (vec_floor_float x)"
proof -
  define R where "R = vec_round_float x"
  from round_float_val [OF fin small] obtain n :: int where
    vr: "valof R = of_int n" and fr: "is_finite R" and near: "\<bar>valof x - of_int n\<bar> \<le> 1 / 2"
    and nb: "\<bar>n\<bar> \<le> 2 ^ 23" unfolding R_def by blast
  have g: "fgt R x \<longleftrightarrow> valof x < of_int n"
    using fgt_valof [of R x] fin fr by (simp add: finite_not_nan_inf vr)
  have vf: "vec_floor_float x = fsub R (if valof x < of_int n then gen_one else 0)"
    unfolding R_def by (simp add: vec_floor_float_def Let_def mask_gt_def mask_and_one g [unfolded R_def])
  have "valof (vec_floor_float x) = of_int \<lfloor>valof x\<rfloor> \<and> is_finite (vec_floor_float x)"
  proof (cases "valof x < of_int n")
    case True
    have rep: "valof R - valof gen_one = real_of_int (n - 1) * 2 powi 0"
      by (simp add: vr gen_one_fields)
    have z: "\<bar>n - 1\<bar> < 2 ^ 24" using nb by simp
    note fs = fsub_exact [OF fr gen_one_fields(1) rep z]
    have "\<lfloor>valof x\<rfloor> = n - 1"
      using True near by (intro floor_unique) (simp_all add: abs_le_iff)
    then show ?thesis using fs(1,2) True by (simp add: vf vr gen_one_fields)
  next
    case False
    have rep: "valof R - valof 0 = real_of_int n * 2 powi 0"
      by (simp add: vr zero_fields)
    have z: "\<bar>n\<bar> < 2 ^ 24" using nb by simp
    note fs = fsub_exact [OF fr zero_fields(1) rep z]
    have "\<lfloor>valof x\<rfloor> = n"
      using False near by (intro floor_unique) (simp_all add: abs_le_iff)
    then show ?thesis using fs(1,2) False by (simp add: vf vr zero_fields)
  qed
  then show "valof (vec_floor_float x) = of_int \<lfloor>valof x\<rfloor>" and "is_finite (vec_floor_float x)"
    by simp_all
qed

lemma ceil_float_val:
  assumes fin: "is_finite x" and small: "\<bar>valof x\<bar> < 2 ^ 23"
  shows "valof (vec_ceil_float x) = of_int \<lceil>valof x\<rceil>" and "is_finite (vec_ceil_float x)"
proof -
  define R where "R = vec_round_float x"
  from round_float_val [OF fin small] obtain n :: int where
    vr: "valof R = of_int n" and fr: "is_finite R" and near: "\<bar>valof x - of_int n\<bar> \<le> 1 / 2"
    and nb: "\<bar>n\<bar> \<le> 2 ^ 23" unfolding R_def by blast
  have g: "flt R x \<longleftrightarrow> of_int n < valof x"
    using flt_valof [of R x] fin fr by (simp add: finite_not_nan_inf vr)
  have vf: "vec_ceil_float x = fadd R (if of_int n < valof x then gen_one else 0)"
    unfolding R_def by (simp add: vec_ceil_float_def Let_def mask_lt_def mask_and_one g [unfolded R_def])
  have "valof (vec_ceil_float x) = of_int \<lceil>valof x\<rceil> \<and> is_finite (vec_ceil_float x)"
  proof (cases "of_int n < valof x")
    case True
    have rep: "valof R + valof gen_one = real_of_int (n + 1) * 2 powi 0"
      by (simp add: vr gen_one_fields)
    have z: "\<bar>n + 1\<bar> < 2 ^ 24" using nb by simp
    note fs = fadd_exact [OF fr gen_one_fields(1) rep z]
    have "\<lceil>valof x\<rceil> = n + 1"
      using True near by (intro ceiling_unique) (simp_all add: abs_le_iff)
    then show ?thesis using fs(1,2) True by (simp add: vf vr gen_one_fields)
  next
    case False
    have rep: "valof R + valof 0 = real_of_int n * 2 powi 0"
      by (simp add: vr zero_fields)
    have z: "\<bar>n\<bar> < 2 ^ 24" using nb by simp
    note fs = fadd_exact [OF fr zero_fields(1) rep z]
    have "\<lceil>valof x\<rceil> = n"
      using False near by (intro ceiling_unique) (simp_all add: abs_le_iff)
    then show ?thesis using fs(1,2) False by (simp add: vf vr zero_fields)
  qed
  then show "valof (vec_ceil_float x) = of_int \<lceil>valof x\<rceil>" and "is_finite (vec_ceil_float x)"
    by simp_all
qed

subsection \<open>Bounds that survive the rounding\<close>

text \<open>Rounding is monotone: a bound that is itself a lane value survives the rounding.\<close>

lemma rd_e_cases: "rd_e N k = - 149 \<or> rd_e N k = k + int (bitlen N) - 24"
  by (simp add: rd_e_def max_def)

lemma rd_shift_val:
  assumes "\<not> rd_e N k \<le> k"
  shows "real N * 2 powi k = (real N / 2 ^ nat (rd_e N k - k)) * 2 powi rd_e N k"
proof -
  have "(2::real) powi k = 2 powi (k - rd_e N k) * 2 powi rd_e N k" by (simp flip: p2_add)
  also have "(2::real) powi (k - rd_e N k) = 1 / 2 ^ nat (rd_e N k - k)"
    using assms by (simp add: power_int_def field_simps)
  finally show ?thesis by simp
qed

lemma rd_big:
  assumes N: "0 < N" and ne: "rd_e N k \<noteq> - 149"
  shows "2 powi (rd_e N k + 23) \<le> real N * 2 powi k"
proof -
  let ?L = "bitlen N"
  from bitlen_bounds [OF N] have lo: "2 ^ (?L - 1) \<le> N" by simp
  have Lpos: "0 < ?L" using N by (rule bitlen_pos)
  have e: "rd_e N k = k + int ?L - 24" using rd_e_cases [of N k] ne by simp
  have "(2::real) powi (rd_e N k + 23) = 2 powi (int (?L - 1)) * 2 powi k"
    unfolding e using Lpos by (simp flip: p2_add add: of_nat_diff algebra_simps)
  also have "\<dots> = real (2 ^ (?L - 1)) * 2 powi k" by simp
  also have "\<dots> \<le> real N * 2 powi k"
    using lo by (intro mult_right_mono) (simp_all only: of_nat_le_iff p2_pos less_imp_le)
  finally show ?thesis .
qed

lemma rd_upper:
  assumes N: "0 < N" and le: "real N * 2 powi k \<le> real M * 2 powi j"
    and M: "M < 2 ^ 24" and j: "- 149 \<le> j"
  shows "real (rd_m N k) * 2 powi rd_e N k \<le> real M * 2 powi j"
proof (cases "rd_e N k \<le> k")
  case True
  then show ?thesis using rd_exact [of N k] le by simp
next
  case False
  define e where "e = rd_e N k"
  define t where "t = nat (e - k)"
  have m: "rd_m N k = rne_shift N t" using False by (simp add: rd_m_def t_def e_def)
  have je: "e \<le> j"
  proof (rule ccontr)
    assume "\<not> e \<le> j"
    then have lt: "j < e" by simp
    then have "rd_e N k \<noteq> - 149" using j by (simp add: e_def)
    from rd_big [OF N this] have "2 powi (e + 23) \<le> real N * 2 powi k" by (simp add: e_def)
    also note le
    also have "real M * 2 powi j < real (2 ^ 24) * 2 powi j"
      using M by (intro mult_strict_right_mono) (simp_all only: of_nat_less_iff p2_pos)
    also have "\<dots> = 2 powi (24 + j)" by (simp add: p2_add)
    finally have "e + 23 < 24 + j" by (simp only: p2_less)
    with lt show False by simp
  qed
  define I where "I = M * 2 ^ nat (j - e)"
  have Ival: "real M * 2 powi j = real I * 2 powi e"
  proof -
    have "(2::real) powi j = 2 powi (j - e) * 2 powi e" by (simp flip: p2_add)
    also have "(2::real) powi (j - e) = 2 ^ nat (j - e)" using je by (simp add: p2_nat)
    finally show ?thesis by (simp add: I_def)
  qed
  have pe: "0 < (2::real) powi e" by (rule p2_pos)
  have "(real N / 2 ^ t) * 2 powi e \<le> real I * 2 powi e"
    using le rd_shift_val [OF False] Ival by (simp add: e_def t_def)
  then have y: "real N / 2 ^ t \<le> real I" by (simp only: mult_le_cancel_right_pos [OF pe])
  from rne_shift_nearest(1) [of N t] have "real (rne_shift N t) \<le> real N / 2 ^ t + 1 / 2"
    by linarith
  with y have "real (rne_shift N t) < real I + 1" by simp
  then have "rne_shift N t < I + 1" by (simp only: of_nat_less_iff flip: of_nat_Suc Suc_eq_plus1)
  then have "real (rne_shift N t) \<le> real I" by simp
  then have "real (rd_m N k) * 2 powi e \<le> real I * 2 powi e"
    unfolding m by (simp only: mult_le_cancel_right_pos [OF pe])
  then show ?thesis using Ival by (simp add: e_def)
qed

lemma rd_lower:
  assumes N: "0 < N" and le: "real M * 2 powi j \<le> real N * 2 powi k"
    and M: "M < 2 ^ 24" and j: "- 149 \<le> j"
  shows "real M * 2 powi j \<le> real (rd_m N k) * 2 powi rd_e N k"
proof (cases "rd_e N k \<le> k")
  case True
  then show ?thesis using rd_exact [of N k] le by simp
next
  case False
  define e where "e = rd_e N k"
  define t where "t = nat (e - k)"
  have m: "rd_m N k = rne_shift N t" using False by (simp add: rd_m_def t_def e_def)
  have pe: "0 < (2::real) powi e" by (rule p2_pos)
  show ?thesis
  proof (cases "e \<le> j")
    case True
    define I where "I = M * 2 ^ nat (j - e)"
    have Ival: "real M * 2 powi j = real I * 2 powi e"
    proof -
      have "(2::real) powi j = 2 powi (j - e) * 2 powi e" by (simp flip: p2_add)
      also have "(2::real) powi (j - e) = 2 ^ nat (j - e)" using True by (simp add: p2_nat)
      finally show ?thesis by (simp add: I_def)
    qed
    have "real I * 2 powi e \<le> (real N / 2 ^ t) * 2 powi e"
      using le rd_shift_val [OF False] Ival by (simp add: e_def t_def)
    then have y: "real I \<le> real N / 2 ^ t" by (simp only: mult_le_cancel_right_pos [OF pe])
    from rne_shift_nearest(1) [of N t] have "real N / 2 ^ t - 1 / 2 \<le> real (rne_shift N t)"
      by linarith
    with y have "real I < real (rne_shift N t) + 1" by simp
    then have "I < rne_shift N t + 1" by (simp only: of_nat_less_iff flip: of_nat_Suc Suc_eq_plus1)
    then have "real I \<le> real (rne_shift N t)" by simp
    then have "real I * 2 powi e \<le> real (rd_m N k) * 2 powi e"
      unfolding m by (simp only: mult_le_cancel_right_pos [OF pe])
    then show ?thesis using Ival by (simp add: e_def)
  next
    case False
    then have lt: "j < e" by simp
    then have ne: "rd_e N k \<noteq> - 149" using j by (simp add: e_def)
    with rd_m_bounds(2) [OF N, of k] have "2 ^ 23 \<le> rd_m N k" by (simp add: not_less)
    then have big: "real (2 ^ 23) \<le> real (rd_m N k)" by (simp only: of_nat_le_iff)
    have "real M * 2 powi j \<le> real (2 ^ 24) * 2 powi j"
      using M by (intro mult_right_mono) (simp_all only: of_nat_le_iff p2_pos less_imp_le)
    also have "\<dots> = 2 powi (24 + j)" by (simp add: p2_add)
    also have "\<dots> \<le> 2 powi (23 + e)" using lt by (intro p2_mono) simp
    also have "\<dots> = real (2 ^ 23) * 2 powi e" by (simp add: p2_add)
    also have "\<dots> \<le> real (rd_m N k) * 2 powi e"
      using big pe by (intro mult_right_mono) simp_all
    finally show ?thesis by (simp add: e_def)
  qed
qed

text \<open>The rounding error is at most half a unit of the last kept bit.\<close>

lemma rd_error:
  "\<bar>real (rd_m N k) * 2 powi rd_e N k - real N * 2 powi k\<bar> \<le> 2 powi (rd_e N k - 1)"
proof (cases "rd_e N k \<le> k")
  case True
  then show ?thesis using rd_exact [of N k] p2_pos [of "rd_e N k - 1"] by simp
next
  case False
  define e where "e = rd_e N k"
  define t where "t = nat (e - k)"
  have m: "rd_m N k = rne_shift N t" using False by (simp add: rd_m_def t_def e_def)
  have pe: "0 < (2::real) powi e" by (rule p2_pos)
  have "real (rd_m N k) * 2 powi e - real N * 2 powi k
          = (real (rne_shift N t) - real N / 2 ^ t) * 2 powi e"
    using rd_shift_val [OF False] by (simp add: m e_def t_def algebra_simps)
  then have "\<bar>real (rd_m N k) * 2 powi e - real N * 2 powi k\<bar>
          = \<bar>real N / 2 ^ t - real (rne_shift N t)\<bar> * 2 powi e"
    using pe by (simp add: abs_mult abs_minus_commute)
  also have "\<dots> \<le> (1 / 2) * 2 powi e"
    using rne_shift_nearest(1) [of N t] pe by (intro mult_right_mono) simp_all
  also have "\<dots> = 2 powi (e - 1)" by (simp add: power_int_diff)
  finally show ?thesis by (simp add: e_def)
qed

lemma round_dy_bounded:
  assumes N: "0 < N" and le: "real N * 2 powi k \<le> real M * 2 powi j"
    and M: "M < 2 ^ 24" and j: "- 149 \<le> j" "j \<le> 103"
  shows "fsign (round_dy s N k) = s"
    and "is_finite (round_dy s N k)"
    and "real (mant (round_dy s N k)) * 2 powi expo (round_dy s N k)
           = real (rd_m N k) * 2 powi rd_e N k"
proof -
  define e where "e = rd_e N k"
  have up: "real (rd_m N k) * 2 powi e \<le> real M * 2 powi j"
    unfolding e_def using N le M j(1) by (rule rd_upper)
  have "nat (e + 149) * 2 ^ 23 + rd_m N k < 0x7F800000"
  proof (cases "rd_m N k < 2 ^ 23")
    case True
    with rd_m_bounds(2) [OF N, of k] have "e = - 149" by (simp add: e_def)
    with True show ?thesis by simp
  next
    case False
    then have "real (2 ^ 23) \<le> real (rd_m N k)" by (simp only: of_nat_le_iff not_less)
    then have "real (2 ^ 23) * 2 powi e \<le> real (rd_m N k) * 2 powi e"
      using p2_pos [of e] by (intro mult_right_mono) simp_all
    also note up
    also have "real M * 2 powi j < real (2 ^ 24) * 2 powi j"
      using M by (intro mult_strict_right_mono) (simp_all only: of_nat_less_iff p2_pos)
    also have "\<dots> = 2 powi (24 + j)" by (simp add: p2_add)
    finally have "2 powi (23 + e) < (2::real) powi (24 + j)" by (simp add: p2_add)
    then have "23 + e < 24 + j" by (simp only: p2_less)
    then have "nat (e + 149) \<le> 252" using j(2) by simp
    then have "nat (e + 149) * 2 ^ 23 \<le> 252 * 2 ^ 23" by (rule mult_le_mono1)
    then show ?thesis using rd_m_bounds(1) [OF N, of k] by simp
  qed
  then have b: "nat (rd_e N k + 149) * 2 ^ 23 + rd_m N k < 0x7F800000" by (simp add: e_def)
  note rv = round_dy_val [OF N b, of s]
  show "fsign (round_dy s N k) = s" by (rule rv(1))
  show "is_finite (round_dy s N k)" by (rule rv(2))
  show "real (mant (round_dy s N k)) * 2 powi expo (round_dy s N k)
           = real (rd_m N k) * 2 powi rd_e N k" by (rule rv(3))
qed

lemma abs_valof: "\<bar>valof w\<bar> = real (mant w) * 2 powi expo w"
  using mag_nonneg [of w] by (simp add: valof_alt)

lemma rd_error_le:
  assumes N: "0 < N" and le: "real N * 2 powi k \<le> 2 powi q"
  shows "\<bar>real (rd_m N k) * 2 powi rd_e N k - real N * 2 powi k\<bar> \<le> 2 powi (max (q - 24) (- 150))"
proof -
  have "rd_e N k - 1 \<le> max (q - 24) (- 150)"
  proof (cases "rd_e N k = - 149")
    case True then show ?thesis by simp
  next
    case False
    from rd_big [OF N False] le have "(2::real) powi (rd_e N k + 23) \<le> 2 powi q" by simp
    then have "rd_e N k + 23 \<le> q" by (simp only: p2_le)
    then show ?thesis by simp
  qed
  then have "(2::real) powi (rd_e N k - 1) \<le> 2 powi (max (q - 24) (- 150))" by (rule p2_mono)
  with rd_error [of N k] show ?thesis by simp
qed

text \<open>What the rounding of a real number \<open>v\<close> of magnitude \<open>N * 2 ^ k\<close> keeps of it.\<close>

lemma round_dy_real:
  assumes v: "\<bar>v\<bar> = real N * 2 powi k" and sg: "v \<noteq> 0 \<Longrightarrow> s = (v < 0)"
    and up: "\<bar>v\<bar> \<le> real M * 2 powi j" and M: "M < 2 ^ 24" and j: "- 149 \<le> j" "j \<le> 103"
  shows "is_finite (round_dy s N k)"
    and "v \<noteq> 0 \<Longrightarrow> fsign (round_dy s N k) = (v < 0)"
    and "\<bar>valof (round_dy s N k)\<bar> \<le> real M * 2 powi j"
    and "0 \<le> v \<Longrightarrow> 0 \<le> valof (round_dy s N k)"
    and "v \<le> 0 \<Longrightarrow> valof (round_dy s N k) \<le> 0"
    and "M' < 2 ^ 24 \<Longrightarrow> - 149 \<le> j' \<Longrightarrow> real M' * 2 powi j' \<le> \<bar>v\<bar>
           \<Longrightarrow> real M' * 2 powi j' \<le> \<bar>valof (round_dy s N k)\<bar>"
    and "\<bar>v\<bar> \<le> 2 powi q \<Longrightarrow> \<bar>valof (round_dy s N k) - v\<bar> \<le> 2 powi (max (q - 24) (- 150))"
proof -
  define w where "w = round_dy s N k"
  have "is_finite w \<and> (v \<noteq> 0 \<longrightarrow> fsign w = (v < 0)) \<and> \<bar>valof w\<bar> \<le> real M * 2 powi j
       \<and> (0 \<le> v \<longrightarrow> 0 \<le> valof w) \<and> (v \<le> 0 \<longrightarrow> valof w \<le> 0)
       \<and> (M' < 2 ^ 24 \<longrightarrow> - 149 \<le> j' \<longrightarrow> real M' * 2 powi j' \<le> \<bar>v\<bar>
           \<longrightarrow> real M' * 2 powi j' \<le> \<bar>valof w\<bar>)
       \<and> (\<bar>v\<bar> \<le> 2 powi q \<longrightarrow> \<bar>valof w - v\<bar> \<le> 2 powi (max (q - 24) (- 150)))"
  proof (cases "N = 0")
    case True
    then have w0: "w = pack s 0" by (simp add: w_def round_dy_def)
    from True v have v0: "v = 0" by simp
    have "0 \<le> real M * 2 powi j" using p2_pos [of j] by simp
    moreover have "real M' * 2 powi j' \<le> 0 \<longrightarrow> real M' * 2 powi j' \<le> 0" by simp
    moreover have "(0::real) \<le> 2 powi (max (q - 24) (- 150))" using p2_pos [of "max (q - 24) (- 150)"] by simp
    ultimately show ?thesis unfolding w0 v0 by (simp add: pack_zero)
  next
    case False
    then have N: "0 < N" by simp
    then have vn: "v \<noteq> 0" using v p2_pos [of k] by auto
    define R where "R = real (rd_m N k) * 2 powi rd_e N k"
    have le: "real N * 2 powi k \<le> real M * 2 powi j" using up v by simp
    note rb = round_dy_bounded [OF N le M j, of s]
    have fs: "fsign w = (v < 0)" unfolding w_def using rb(1) sg [OF vn] by simp
    have fin: "is_finite w" unfolding w_def by (rule rb(2))
    have mag: "\<bar>valof w\<bar> = R" unfolding abs_valof w_def R_def by (rule rb(3))
    have Rpos: "0 \<le> R" unfolding R_def using p2_pos [of "rd_e N k"] by simp
    have val: "valof w = (if v < 0 then - R else R)"
      using mag fs Rpos mag_nonneg [of w] by (simp add: valof_alt split: if_splits)
    have u: "R \<le> real M * 2 powi j" unfolding R_def using N le M j(1) by (rule rd_upper)
    have l: "M' < 2 ^ 24 \<longrightarrow> - 149 \<le> j' \<longrightarrow> real M' * 2 powi j' \<le> \<bar>v\<bar>
           \<longrightarrow> real M' * 2 powi j' \<le> R"
      unfolding R_def v using rd_lower [OF N, of M' j' k] by blast
    have e: "\<bar>v\<bar> \<le> 2 powi q \<longrightarrow> \<bar>R - \<bar>v\<bar>\<bar> \<le> 2 powi (max (q - 24) (- 150))"
      unfolding R_def v using rd_error_le [OF N, of k q] by blast
    have e': "\<bar>valof w - v\<bar> = \<bar>R - \<bar>v\<bar>\<bar>" unfolding val by (cases "v < 0") simp_all
    show ?thesis
      unfolding mag e' using fin fs u l e val Rpos vn by simp
  qed
  then show "is_finite (round_dy s N k)"
    and "v \<noteq> 0 \<Longrightarrow> fsign (round_dy s N k) = (v < 0)"
    and "\<bar>valof (round_dy s N k)\<bar> \<le> real M * 2 powi j"
    and "0 \<le> v \<Longrightarrow> 0 \<le> valof (round_dy s N k)"
    and "v \<le> 0 \<Longrightarrow> valof (round_dy s N k) \<le> 0"
    and "M' < 2 ^ 24 \<Longrightarrow> - 149 \<le> j' \<Longrightarrow> real M' * 2 powi j' \<le> \<bar>v\<bar>
           \<Longrightarrow> real M' * 2 powi j' \<le> \<bar>valof (round_dy s N k)\<bar>"
    and "\<bar>v\<bar> \<le> 2 powi q \<Longrightarrow> \<bar>valof (round_dy s N k) - v\<bar> \<le> 2 powi (max (q - 24) (- 150))"
    unfolding w_def by blast+
qed

lemma fmul_finite:
  "is_finite a \<Longrightarrow> is_finite b \<Longrightarrow>
   fmul a b = round_dy (fsign a \<noteq> fsign b) (mant a * mant b) (expo a + expo b)"
  by (simp add: fmul_def Let_def finite_not_nan_inf)

lemma fmul_magnitude:
  "\<bar>valof a * valof b\<bar> = real (mant a * mant b) * 2 powi (expo a + expo b)"
  by (simp add: abs_mult abs_valof p2_add)

lemma fmul_sign: "valof a * valof b \<noteq> 0 \<Longrightarrow> (fsign a \<noteq> fsign b) = (valof a * valof b < 0)"
proof -
  assume nz: "valof a * valof b \<noteq> 0"
  define A where "A = real (mant a) * 2 powi expo a"
  define B where "B = real (mant b) * 2 powi expo b"
  have va: "valof a = (if fsign a then - A else A)" and vb: "valof b = (if fsign b then - B else B)"
    by (simp_all add: valof_alt A_def B_def)
  have "0 \<le> A" "0 \<le> B" unfolding A_def B_def by (rule mag_nonneg)+
  moreover have "A \<noteq> 0" "B \<noteq> 0" using nz unfolding va vb by (auto split: if_splits)
  ultimately have "0 < A" "0 < B" by simp_all
  then have "0 < A * B" by simp
  then show ?thesis unfolding va vb by (cases "fsign a"; cases "fsign b") simp_all
qed

lemma fmul_real:
  assumes fa: "is_finite a" and fb: "is_finite b"
    and up: "\<bar>valof a * valof b\<bar> \<le> real M * 2 powi j" and M: "M < 2 ^ 24"
    and j: "- 149 \<le> j" "j \<le> 103"
  shows "is_finite (fmul a b)"
    and "\<bar>valof (fmul a b)\<bar> \<le> real M * 2 powi j"
    and "\<bar>valof a * valof b\<bar> \<le> 2 powi q
           \<Longrightarrow> \<bar>valof (fmul a b) - valof a * valof b\<bar> \<le> 2 powi (max (q - 24) (- 150))"
    and "M' < 2 ^ 24 \<Longrightarrow> - 149 \<le> j' \<Longrightarrow> real M' * 2 powi j' \<le> \<bar>valof a * valof b\<bar>
           \<Longrightarrow> real M' * 2 powi j' \<le> \<bar>valof (fmul a b)\<bar>"
    and "0 \<le> valof a * valof b \<Longrightarrow> 0 \<le> valof (fmul a b)"
    and "valof a * valof b \<le> 0 \<Longrightarrow> valof (fmul a b) \<le> 0"
proof -
  note f = fmul_finite [OF fa fb]
  note r = round_dy_real [OF fmul_magnitude fmul_sign up M j]
  show "is_finite (fmul a b)" unfolding f by (rule r(1))
  show "\<bar>valof (fmul a b)\<bar> \<le> real M * 2 powi j" unfolding f by (rule r(3))
  show "\<bar>valof a * valof b\<bar> \<le> 2 powi q
           \<Longrightarrow> \<bar>valof (fmul a b) - valof a * valof b\<bar> \<le> 2 powi (max (q - 24) (- 150))"
    unfolding f by (rule r(7))
  show "M' < 2 ^ 24 \<Longrightarrow> - 149 \<le> j' \<Longrightarrow> real M' * 2 powi j' \<le> \<bar>valof a * valof b\<bar>
           \<Longrightarrow> real M' * 2 powi j' \<le> \<bar>valof (fmul a b)\<bar>"
    unfolding f by (rule r(6))
  show "0 \<le> valof a * valof b \<Longrightarrow> 0 \<le> valof (fmul a b)" unfolding f by (rule r(4))
  show "valof a * valof b \<le> 0 \<Longrightarrow> valof (fmul a b) \<le> 0" unfolding f by (rule r(5))
qed

lemma fmul_le:
  assumes fa: "is_finite a" and fb: "is_finite b"
    and a: "\<bar>valof a\<bar> \<le> A" and b: "\<bar>valof b\<bar> \<le> B"
    and ab: "A * B \<le> real M * 2 powi j" and M: "M < 2 ^ 24" and j: "- 149 \<le> j" "j \<le> 103"
  shows "is_finite (fmul a b) \<and> \<bar>valof (fmul a b)\<bar> \<le> real M * 2 powi j"
proof -
  have "\<bar>valof a * valof b\<bar> = \<bar>valof a\<bar> * \<bar>valof b\<bar>" by (rule abs_mult)
  also have "\<dots> \<le> A * B" using a b by (intro mult_mono) simp_all
  also note ab
  finally have up: "\<bar>valof a * valof b\<bar> \<le> real M * 2 powi j" .
  from fmul_real(1,2) [OF fa fb up M j] show ?thesis by simp
qed

lemma fadd_real:
  assumes fa: "is_finite a" and fb: "is_finite b"
    and up: "\<bar>valof a + valof b\<bar> \<le> real M * 2 powi j" and M: "M < 2 ^ 24"
    and j: "- 149 \<le> j" "j \<le> 103"
  shows "is_finite (fadd a b)"
    and "\<bar>valof (fadd a b)\<bar> \<le> real M * 2 powi j"
    and "\<bar>valof a + valof b\<bar> \<le> 2 powi q
           \<Longrightarrow> \<bar>valof (fadd a b) - (valof a + valof b)\<bar> \<le> 2 powi (max (q - 24) (- 150))"
    and "M' < 2 ^ 24 \<Longrightarrow> - 149 \<le> j' \<Longrightarrow> real M' * 2 powi j' \<le> \<bar>valof a + valof b\<bar>
           \<Longrightarrow> real M' * 2 powi j' \<le> \<bar>valof (fadd a b)\<bar>"
    and "0 \<le> valof a + valof b \<Longrightarrow> 0 \<le> valof (fadd a b)"
    and "valof a + valof b \<le> 0 \<Longrightarrow> valof (fadd a b) \<le> 0"
    and "valof a + valof b \<noteq> 0 \<Longrightarrow> fsign (fadd a b) = (valof a + valof b < 0)"
    and "valof a + valof b = 0 \<Longrightarrow> fsign (fadd a b) = (fsign a \<and> fsign b)"
proof -
  define k where "k = min (expo a) (expo b)"
  define x where "x = smant a k + smant b k"
  define v where "v = valof a + valof b"
  have ka: "k \<le> expo a" and kb: "k \<le> expo b" by (simp_all add: k_def)
  have sum: "v = real_of_int x * 2 powi k"
    by (simp add: v_def x_def valof_smant [OF ka] valof_smant [OF kb] algebra_simps)
  have pk: "0 < (2::real) powi k" by (rule p2_pos)
  have zero_iff: "v = 0 \<longleftrightarrow> x = 0" unfolding sum using pk by simp
  have neg_iff: "v < 0 \<longleftrightarrow> x < 0"
    unfolding sum using mult_less_cancel_right_pos [OF pk, of "real_of_int x" 0] by simp
  have fin: "fadd a b = (if x = 0 then pack (fsign a \<and> fsign b) 0
                         else round_dy (x < 0) (nat \<bar>x\<bar>) k)"
    unfolding x_def k_def using fa fb by (rule fadd_finite)
  have mg: "\<bar>v\<bar> = real (nat \<bar>x\<bar>) * 2 powi k" unfolding sum by (simp add: abs_mult)
  have sg: "v \<noteq> 0 \<Longrightarrow> (x < 0) = (v < 0)" using neg_iff by simp
  have up': "\<bar>v\<bar> \<le> real M * 2 powi j" using up by (simp add: v_def)
  note r = round_dy_real [OF mg sg up' M j]
  have rd: "x \<noteq> 0 \<Longrightarrow> fadd a b = round_dy (x < 0) (nat \<bar>x\<bar>) k" by (simp add: fin)
  have z: "x = 0 \<Longrightarrow> fadd a b = pack (fsign a \<and> fsign b) 0" by (simp add: fin)
  have "is_finite (fadd a b) \<and> \<bar>valof (fadd a b)\<bar> \<le> real M * 2 powi j
    \<and> (\<bar>v\<bar> \<le> 2 powi q \<longrightarrow> \<bar>valof (fadd a b) - v\<bar> \<le> 2 powi (max (q - 24) (- 150)))
    \<and> (M' < 2 ^ 24 \<longrightarrow> - 149 \<le> j' \<longrightarrow> real M' * 2 powi j' \<le> \<bar>v\<bar>
           \<longrightarrow> real M' * 2 powi j' \<le> \<bar>valof (fadd a b)\<bar>)
    \<and> (0 \<le> v \<longrightarrow> 0 \<le> valof (fadd a b)) \<and> (v \<le> 0 \<longrightarrow> valof (fadd a b) \<le> 0)
    \<and> (v \<noteq> 0 \<longrightarrow> fsign (fadd a b) = (v < 0))
    \<and> (v = 0 \<longrightarrow> fsign (fadd a b) = (fsign a \<and> fsign b))"
  proof (cases "x = 0")
    case True
    then have v0: "v = 0" using zero_iff by simp
    have "0 \<le> real M * 2 powi j" using p2_pos [of j] by simp
    moreover have "(0::real) \<le> 2 powi (max (q - 24) (- 150))"
      using p2_pos [of "max (q - 24) (- 150)"] by simp
    ultimately show ?thesis unfolding z [OF True] v0 by (simp add: pack_zero)
  next
    case False
    then have vn: "v \<noteq> 0" using zero_iff by simp
    show ?thesis unfolding rd [OF False]
      using r(1) r(2) [OF vn] r(3) r(4) r(5) r(6) [of M' j'] r(7) [of q] vn by blast
  qed
  then show "is_finite (fadd a b)"
    and "\<bar>valof (fadd a b)\<bar> \<le> real M * 2 powi j"
    and "\<bar>valof a + valof b\<bar> \<le> 2 powi q
           \<Longrightarrow> \<bar>valof (fadd a b) - (valof a + valof b)\<bar> \<le> 2 powi (max (q - 24) (- 150))"
    and "M' < 2 ^ 24 \<Longrightarrow> - 149 \<le> j' \<Longrightarrow> real M' * 2 powi j' \<le> \<bar>valof a + valof b\<bar>
           \<Longrightarrow> real M' * 2 powi j' \<le> \<bar>valof (fadd a b)\<bar>"
    and "0 \<le> valof a + valof b \<Longrightarrow> 0 \<le> valof (fadd a b)"
    and "valof a + valof b \<le> 0 \<Longrightarrow> valof (fadd a b) \<le> 0"
    and "valof a + valof b \<noteq> 0 \<Longrightarrow> fsign (fadd a b) = (valof a + valof b < 0)"
    and "valof a + valof b = 0 \<Longrightarrow> fsign (fadd a b) = (fsign a \<and> fsign b)"
    unfolding v_def by blast+
qed

lemma fadd_le:
  assumes fa: "is_finite a" and fb: "is_finite b"
    and a: "\<bar>valof a\<bar> \<le> A" and b: "\<bar>valof b\<bar> \<le> B"
    and ab: "A + B \<le> real M * 2 powi j" and M: "M < 2 ^ 24" and j: "- 149 \<le> j" "j \<le> 103"
  shows "is_finite (fadd a b) \<and> \<bar>valof (fadd a b)\<bar> \<le> real M * 2 powi j"
proof -
  have up: "\<bar>valof a + valof b\<bar> \<le> real M * 2 powi j" using a b ab by linarith
  from fadd_real(1,2) [OF fa fb up M j] show ?thesis by simp
qed

text \<open>Negation commutes with the rounding.\<close>

lemma pack_fneg: "b < 2 ^ 31 \<Longrightarrow> pack (\<not> s) b = fneg (pack s b)"
proof -
  assume b: "b < 2 ^ 31"
  have nb: "\<not> bit (word_of_nat b :: 32 word) 31"
    using fsign_pack [OF b, of False] by (simp add: fsign_def pack_def)
  show ?thesis
    unfolding pack_def fneg_def
    by (rule bit_word_eqI) (use nb in \<open>auto simp add: bit_simps bit_sign_mask\<close>)
qed

lemma round_dy_fneg: "round_dy (\<not> s) N k = fneg (round_dy s N k)"
  by (simp add: round_dy_def Let_def pack_fneg)

lemma mant_fneg: "mant (fneg x) = mant x" and expo_fneg: "expo (fneg x) = expo x"
  by (simp_all add: mant_def expo_def fields_fneg)

lemma smant_fneg: "smant (fneg x) k = - smant x k"
  by (simp add: smant_def mant_fneg expo_fneg fields_fneg)

lemma fmul_fneg:
  assumes "is_finite a" "is_finite b"
  shows "fmul a (fneg b) = fneg (fmul a b)"
proof -
  have "is_finite (fneg b)" using assms by (simp add: is_finite_fneg)
  from fmul_finite [OF assms(1) this] fmul_finite [OF assms] show ?thesis
    by (simp add: mant_fneg expo_fneg fields_fneg flip: round_dy_fneg)
qed

lemma fadd_fneg:
  assumes fa: "is_finite a" and fb: "is_finite b" and nz: "valof a + valof b \<noteq> 0"
  shows "fadd (fneg a) (fneg b) = fneg (fadd a b)"
proof -
  define k where "k = min (expo a) (expo b)"
  define x where "x = smant a k + smant b k"
  have ka: "k \<le> expo a" and kb: "k \<le> expo b" by (simp_all add: k_def)
  have sum: "valof a + valof b = real_of_int x * 2 powi k"
    by (simp add: x_def valof_smant [OF ka] valof_smant [OF kb] algebra_simps)
  have xn: "x \<noteq> 0" using nz unfolding sum by auto
  have l: "fadd a b = round_dy (x < 0) (nat \<bar>x\<bar>) k"
    using fadd_finite [OF fa fb] xn by (simp add: x_def k_def)
  have "is_finite (fneg a)" "is_finite (fneg b)" using fa fb by (simp_all add: is_finite_fneg)
  from fadd_finite [OF this]
  have r: "fadd (fneg a) (fneg b) = round_dy (- x < 0) (nat \<bar>- x\<bar>) k"
    using xn by (simp add: x_def k_def expo_fneg smant_fneg)
  have "(- x < 0) = (\<not> x < 0)" using xn by auto
  then show ?thesis unfolding l r by (simp add: round_dy_fneg)
qed

subsection \<open>The small branch of the hyperbolic tangent\<close>

lemma fmul_bound:
  assumes "is_finite a" "is_finite b" "\<bar>valof a\<bar> \<le> A" "\<bar>valof b\<bar> \<le> B"
    and "A * B \<le> C" "C = real M * 2 powi j" "M < 2 ^ 24" "- 149 \<le> j" "j \<le> 103"
  shows "is_finite (fmul a b) \<and> \<bar>valof (fmul a b)\<bar> \<le> C"
  using fmul_le [OF assms(1-4), of M j] assms(5-9) by simp

lemma fadd_bound:
  assumes "is_finite a" "is_finite b" "\<bar>valof a\<bar> \<le> A" "\<bar>valof b\<bar> \<le> B"
    and "A + B \<le> C" "C = real M * 2 powi j" "M < 2 ^ 24" "- 149 \<le> j" "j \<le> 103"
  shows "is_finite (fadd a b) \<and> \<bar>valof (fadd a b)\<bar> \<le> C"
  using fadd_le [OF assms(1-4), of M j] assms(5-9) by simp

lemma tanh_coeff_values:
  "valof tanh_f1 = - (12251370 / 2 ^ 31)" "valof tanh_f2 = 11080526 / 2 ^ 29"
  "valof tanh_f3 = - (14425645 / 2 ^ 28)" "valof tanh_f4 = 8946579 / 2 ^ 26"
  "valof tanh_f5 = - (11184793 / 2 ^ 25)"
  by (simp_all add: valof_def fsign_def mant_def expo_def fexp_def ffrac_def
      tanh_f1_def tanh_f2_def tanh_f3_def tanh_f4_def tanh_f5_def)

lemma tanh_coeffs:
  "is_finite tanh_f1" "\<bar>valof tanh_f1\<bar> \<le> 1 / 128"
  "is_finite tanh_f2" "\<bar>valof tanh_f2\<bar> \<le> 3 / 128"
  "is_finite tanh_f3" "\<bar>valof tanh_f3\<bar> \<le> 7 / 128"
  "is_finite tanh_f4" "\<bar>valof tanh_f4\<bar> \<le> 9 / 64"
  "is_finite tanh_f5" "\<bar>valof tanh_f5\<bar> \<le> 3 / 8"
  unfolding tanh_coeff_values
  by (simp_all add: is_finite_def fexp_def
      tanh_f1_def tanh_f2_def tanh_f3_def tanh_f4_def tanh_f5_def)

lemma tanh_poly_bound:
  assumes fa: "is_finite a" and ba: "\<bar>valof a\<bar> \<le> 5 / 8"
  shows "is_finite (fmul (fadd (fmul (fadd (fmul (fadd (fmul (fadd (fmul tanh_f1 (fmul a a))
            tanh_f2) (fmul a a)) tanh_f3) (fmul a a)) tanh_f4) (fmul a a)) tanh_f5) (fmul a a))
       \<and> \<bar>valof (fmul (fadd (fmul (fadd (fmul (fadd (fmul (fadd (fmul tanh_f1 (fmul a a))
            tanh_f2) (fmul a a)) tanh_f3) (fmul a a)) tanh_f4) (fmul a a)) tanh_f5) (fmul a a))\<bar>
           \<le> 1 / 4"
proof -
  define s where "s = fmul a a"
  have s: "is_finite s \<and> \<bar>valof s\<bar> \<le> 1 / 2"
    unfolding s_def by (rule fmul_bound [OF fa fa ba ba, of "1 / 2" 1 "- 1"]) simp_all
  then have fs: "is_finite s" and bs: "\<bar>valof s\<bar> \<le> 1 / 2" by simp_all
  define t1 where "t1 = fmul tanh_f1 s"
  have t1: "is_finite t1 \<and> \<bar>valof t1\<bar> \<le> 1 / 256"
    unfolding t1_def by (rule fmul_bound [OF tanh_coeffs(1) fs tanh_coeffs(2) bs, of "1 / 256" 1 "- 8"]) simp_all
  define u1 where "u1 = fadd t1 tanh_f2"
  have u1: "is_finite u1 \<and> \<bar>valof u1\<bar> \<le> 1 / 32"
    unfolding u1_def
    by (rule fadd_bound [OF conjunct1 [OF t1] tanh_coeffs(3) conjunct2 [OF t1] tanh_coeffs(4),
        of "1 / 32" 1 "- 5"]) simp_all
  define t2 where "t2 = fmul u1 s"
  have t2: "is_finite t2 \<and> \<bar>valof t2\<bar> \<le> 1 / 64"
    unfolding t2_def
    by (rule fmul_bound [OF conjunct1 [OF u1] fs conjunct2 [OF u1] bs, of "1 / 64" 1 "- 6"]) simp_all
  define u2 where "u2 = fadd t2 tanh_f3"
  have u2: "is_finite u2 \<and> \<bar>valof u2\<bar> \<le> 1 / 8"
    unfolding u2_def
    by (rule fadd_bound [OF conjunct1 [OF t2] tanh_coeffs(5) conjunct2 [OF t2] tanh_coeffs(6),
        of "1 / 8" 1 "- 3"]) simp_all
  define t3 where "t3 = fmul u2 s"
  have t3: "is_finite t3 \<and> \<bar>valof t3\<bar> \<le> 1 / 16"
    unfolding t3_def
    by (rule fmul_bound [OF conjunct1 [OF u2] fs conjunct2 [OF u2] bs, of "1 / 16" 1 "- 4"]) simp_all
  define u3 where "u3 = fadd t3 tanh_f4"
  have u3: "is_finite u3 \<and> \<bar>valof u3\<bar> \<le> 1 / 4"
    unfolding u3_def
    by (rule fadd_bound [OF conjunct1 [OF t3] tanh_coeffs(7) conjunct2 [OF t3] tanh_coeffs(8),
        of "1 / 4" 1 "- 2"]) simp_all
  define t4 where "t4 = fmul u3 s"
  have t4: "is_finite t4 \<and> \<bar>valof t4\<bar> \<le> 1 / 8"
    unfolding t4_def
    by (rule fmul_bound [OF conjunct1 [OF u3] fs conjunct2 [OF u3] bs, of "1 / 8" 1 "- 3"]) simp_all
  define u4 where "u4 = fadd t4 tanh_f5"
  have u4: "is_finite u4 \<and> \<bar>valof u4\<bar> \<le> 1 / 2"
    unfolding u4_def
    by (rule fadd_bound [OF conjunct1 [OF t4] tanh_coeffs(9) conjunct2 [OF t4] tanh_coeffs(10),
        of "1 / 2" 1 "- 1"]) simp_all
  have "is_finite (fmul u4 s) \<and> \<bar>valof (fmul u4 s)\<bar> \<le> 1 / 4"
    by (rule fmul_bound [OF conjunct1 [OF u4] fs conjunct2 [OF u4] bs, of "1 / 4" 1 "- 2"]) simp_all
  then show ?thesis unfolding u4_def t4_def u3_def t3_def u2_def t2_def u1_def t1_def s_def .
qed

lemma below_is_finite:
  assumes "\<not> is_nan w" and "\<bar>valof w\<bar> < 2 ^ 128"
  shows "is_finite w"
proof (rule ccontr)
  assume "\<not> is_finite w"
  then have e: "fexp w = 255" using fexp_less [of w] by (simp add: is_finite_def)
  from mag_lower [of w] e have "2 powi 128 \<le> real (mant w) * 2 powi expo w" by simp
  then have "2 ^ 128 \<le> \<bar>valof w\<bar>" by (simp add: abs_valof)
  with assms(2) show False by simp
qed

lemma limit_small_fields: "\<not> is_nan limit_small" "valof limit_small = 5 / 8"
  by (simp_all add: is_nan_def valof_def limit_small_def fsign_def mant_def expo_def
      fexp_def ffrac_def)

lemma mag_ge_unit:
  assumes "valof w \<noteq> 0"
  shows "2 powi expo w \<le> \<bar>valof w\<bar>"
proof -
  have "mant w \<noteq> 0" using assms by (auto simp add: valof_def)
  then have "1 \<le> real (mant w)" by simp
  then have "1 * 2 powi expo w \<le> real (mant w) * 2 powi expo w"
    using p2_pos [of "expo w"] by (intro mult_right_mono) simp_all
  then show ?thesis by (simp add: abs_valof)
qed

lemma mag_lt_top: "\<bar>valof w\<bar> < 2 powi (expo w + 24)"
proof -
  have "real (mant w) < real (2 ^ 24)" using mant_less [of w] by (simp only: of_nat_less_iff)
  then have "real (mant w) * 2 powi expo w < real (2 ^ 24) * 2 powi expo w"
    using p2_pos [of "expo w"] by (intro mult_strict_right_mono) simp_all
  also have "\<dots> = 2 powi (expo w + 24)" by (simp add: p2_add)
  finally show ?thesis by (simp add: abs_valof)
qed

text \<open>The small branch of the hyperbolic tangent: \<open>q * arg + arg\<close> with \<open>q\<close> computed from
  the magnitude and at most \<open>1 / 4\<close>, so that the sum is not zero unless \<open>arg\<close> is.\<close>

lemma small_sum_odd:
  assumes fq: "is_finite q" and bq: "\<bar>valof q\<bar> \<le> 1 / 4"
    and fx: "is_finite x" and bx: "\<bar>valof x\<bar> \<le> 1" and nz: "valof x \<noteq> 0"
  shows "fadd (fmul q (fneg x)) (fneg x) = fneg (fadd (fmul q x) x)"
proof -
  define e where "e = expo x"
  have e: "- 149 \<le> e" unfolding e_def by (rule expo_lower)
  have lo: "2 powi e \<le> \<bar>valof x\<bar>" unfolding e_def using nz by (rule mag_ge_unit)
  have hi: "\<bar>valof x\<bar> < 2 powi (e + 24)" unfolding e_def by (rule mag_lt_top)
  have pr: "\<bar>valof q * valof x\<bar> \<le> \<bar>valof x\<bar> / 4"
    using bq mult_right_mono [of "\<bar>valof q\<bar>" "1 / 4" "\<bar>valof x\<bar>"] by (simp add: abs_mult)
  have up: "\<bar>valof q * valof x\<bar> \<le> real 1 * 2 powi 0" using pr bx by simp
  have "(2::real) powi (e + 24) = 4 * 2 powi (e + 22)"
    using p2_add [of 2 "e + 22"] by (simp add: algebra_simps)
  then have q: "\<bar>valof q * valof x\<bar> \<le> 2 powi (e + 22)" using pr hi by simp
  have c: "(1::nat) < 2 ^ 24" "- 149 \<le> (0::int)" "(0::int) \<le> 103" by simp_all
  note m3 = fmul_real(3) [OF fq fx up c, of "e + 22"]
  have ft: "is_finite (fmul q x)" by (rule fmul_real(1) [OF fq fx up c])
  have "max (e + 22 - 24) (- 150) \<le> e - 1" using e by simp
  then have "(2::real) powi (max (e + 22 - 24) (- 150)) \<le> 2 powi (e - 1)" by (rule p2_mono)
  also have "\<dots> = 2 powi e / 2" by (simp add: power_int_diff)
  finally have "\<bar>valof (fmul q x) - valof q * valof x\<bar> \<le> 2 powi e / 2"
    using m3 q by simp
  then have "\<bar>valof (fmul q x)\<bar> \<le> \<bar>valof x\<bar> / 4 + \<bar>valof x\<bar> / 2"
    using pr lo by linarith
  moreover have "0 < \<bar>valof x\<bar>" using nz by simp
  ultimately have "\<bar>valof (fmul q x)\<bar> < \<bar>valof x\<bar>" by linarith
  then have s: "valof (fmul q x) + valof x \<noteq> 0" by linarith
  show ?thesis
    unfolding fmul_fneg [OF fq fx] using ft fx s by (rule fadd_fneg)
qed

lemma tanh_small_odd:
  assumes sm: "flt (x AND gen_abs_mask) limit_small" and nz: "valof x \<noteq> 0"
  shows "vec_tanh_float (fneg x) = fneg (vec_tanh_float x)"
proof -
  define a where "a = x AND gen_abs_mask"
  define q where "q = fmul (fadd (fmul (fadd (fmul (fadd (fmul (fadd (fmul tanh_f1 (fmul a a))
            tanh_f2) (fmul a a)) tanh_f3) (fmul a a)) tanh_f4) (fmul a a)) tanh_f5) (fmul a a)"
  have sm': "flt a limit_small" using sm by (simp add: a_def)
  have form: "vec_tanh_float y = fadd (fmul q y) y" if "y XOR (y AND gen_sign_mask) = a" for y
    unfolding q_def
    by (simp add: vec_tanh_float_def Let_def that mask_lt_def sm' select_true)
  have na: "\<not> is_nan a" using sm' by (simp add: flt_def)
  have va: "valof a = \<bar>valof x\<bar>" unfolding a_def by (rule valof_abs)
  have lt: "\<bar>valof x\<bar> < 5 / 8"
    using sm' na by (simp add: flt_valof limit_small_fields va)
  have fa: "is_finite a" using na lt by (intro below_is_finite) (simp_all add: va)
  have fx: "is_finite x" using fa by (simp add: a_def is_finite_abs)
  have ba: "\<bar>valof a\<bar> \<le> 5 / 8" using lt by (simp add: va)
  from tanh_poly_bound [OF fa ba] have fq: "is_finite q" and bq: "\<bar>valof q\<bar> \<le> 1 / 4"
    by (simp_all add: q_def)
  have bx: "\<bar>valof x\<bar> \<le> 1" using lt by simp
  have y1: "x XOR (x AND gen_sign_mask) = a" unfolding a_def by (rule xor_sign_is_abs)
  have y2: "fneg x XOR (fneg x AND gen_sign_mask) = a"
    unfolding a_def using xor_sign_is_abs [of "fneg x"] by (simp add: abs_fneg)
  show ?thesis
    unfolding form [OF y1] form [OF y2] using fq bq fx bx nz by (rule small_sum_odd)
qed

subsection \<open>The medium branch of the hyperbolic tangent\<close>

text \<open>The medium branch: the magnitude \<open>1 - 2 / (exp (2 |x|) + 1)\<close> with the sign of the
  argument set by \<open>OR\<close>.  The result is odd when the sign bit of the magnitude is clear.\<close>

lemma tanh_medium_form:
  assumes "\<not> flt a limit_small" and "\<not> fgt a maxlogf_2"
    and "y XOR (y AND gen_sign_mask) = a"
  shows "vec_tanh_float y =
           fsub gen_one (fdiv two_f (fadd (vec_exp_tanh_float (fadd a a)) gen_one))
             OR (y AND gen_sign_mask)"
  by (simp add: vec_tanh_float_def Let_def assms mask_lt_def mask_gt_def select_true select_false)

lemma tanh_medium_odd:
  assumes ns: "\<not> flt (x AND gen_abs_mask) limit_small"
    and nb: "\<not> fgt (x AND gen_abs_mask) maxlogf_2"
    and sg: "\<not> fsign (fsub gen_one (fdiv two_f
               (fadd (vec_exp_tanh_float (fadd (x AND gen_abs_mask) (x AND gen_abs_mask))) gen_one)))"
  shows "vec_tanh_float (fneg x) = fneg (vec_tanh_float x)"
proof -
  define a where "a = x AND gen_abs_mask"
  define r where "r = fsub gen_one (fdiv two_f (fadd (vec_exp_tanh_float (fadd a a)) gen_one))"
  have y1: "x XOR (x AND gen_sign_mask) = a" unfolding a_def by (rule xor_sign_is_abs)
  have y2: "fneg x XOR (fneg x AND gen_sign_mask) = a"
    unfolding a_def using xor_sign_is_abs [of "fneg x"] by (simp add: abs_fneg)
  have b: "\<not> bit r 31" using sg by (simp add: r_def a_def fsign_def)
  have l: "vec_tanh_float (fneg x) = r OR (fneg x AND gen_sign_mask)"
    unfolding r_def using ns nb y2 unfolding a_def [symmetric] by (rule tanh_medium_form)
  have r: "vec_tanh_float x = r OR (x AND gen_sign_mask)"
    unfolding r_def using ns nb y1 unfolding a_def [symmetric] by (rule tanh_medium_form)
  show ?thesis
    unfolding l r sign_fneg or_sign_flip [OF b] by (simp add: fneg_def)
qed

lemma exp_tanh_qnan: "vec_exp_tanh_float qnan = qnan"
  by (simp add: vec_exp_tanh_float_def round_vec_def vec_round_float_def
      ldexp_float_def feval cong: let_weak_cong)

lemma medium_of_qnan: "fsub gen_one (fdiv two_f (fadd qnan gen_one)) = qnan"
  by (simp add: feval cong: let_weak_cong)

lemma tanh_nan_odd:
  assumes "is_nan x"
  shows "vec_tanh_float (fneg x) = fneg (vec_tanh_float x)"
proof -
  have n: "is_nan (x AND gen_abs_mask)" using assms by (simp add: is_nan_abs)
  have d: "fadd (x AND gen_abs_mask) (x AND gen_abs_mask) = qnan" using n by (simp add: fadd_def)
  show ?thesis
  proof (rule tanh_medium_odd)
    show "\<not> flt (x AND gen_abs_mask) limit_small" using n by (simp add: flt_def)
    show "\<not> fgt (x AND gen_abs_mask) maxlogf_2" using n by (simp add: fgt_def flt_def)
    show "\<not> fsign (fsub gen_one (fdiv two_f
               (fadd (vec_exp_tanh_float (fadd (x AND gen_abs_mask) (x AND gen_abs_mask))) gen_one)))"
      unfolding d exp_tanh_qnan medium_of_qnan by (simp add: fsign_def qnan_def)
  qed
qed

text \<open>A quotient of two positive lanes, the divisor the larger, is at most 1 after rounding:
  the sticky bit does not carry the quotient past the bound.\<close>

lemma fdiv_finite:
  "is_finite a \<Longrightarrow> is_finite b \<Longrightarrow> mant a \<noteq> 0 \<Longrightarrow> mant b \<noteq> 0 \<Longrightarrow>
   fdiv a b = round_dy (fsign a \<noteq> fsign b)
      (2 * (mant a * 2 ^ 50 div mant b) + (if mant a * 2 ^ 50 mod mant b = 0 then 0 else 1))
      (expo a - expo b - 51)"
  by (simp add: fdiv_def Let_def finite_not_nan_inf)

lemma valof_pos: "\<not> fsign w \<Longrightarrow> valof w = real (mant w) * 2 powi expo w"
  by (simp add: valof_alt)

lemma sticky_quotient_le:
  fixes n b u :: nat
  assumes b: "0 < b" and le: "n \<le> u * b"
  shows "2 * (n div b) + (if n mod b = 0 then 0 else 1) \<le> 2 * u"
proof (cases "n mod b = 0")
  case True
  have "n div b \<le> u * b div b" using le by (rule div_le_mono)
  then have "n div b \<le> u" using b by simp
  then show ?thesis using True by simp
next
  case False
  have "n div b * b + n mod b = n" by simp
  then have "n div b * b < n" using False by linarith
  then have "n div b * b < u * b" using le by (rule less_le_trans)
  then have "n div b < u" by (simp only: mult_less_cancel2)
  then show ?thesis using False by simp
qed

lemma fdiv_le_one:
  assumes fa: "is_finite a" and fb: "is_finite b" and sa: "\<not> fsign a" and sb: "\<not> fsign b"
    and pos: "0 < valof a" and le: "valof a \<le> valof b"
  shows "is_finite (fdiv a b)" and "0 \<le> valof (fdiv a b)" and "valof (fdiv a b) \<le> 1"
proof -
  define na where "na = mant a"
  define nb where "nb = mant b"
  define ea where "ea = expo a"
  define eb where "eb = expo b"
  have va: "valof a = real na * 2 powi ea" unfolding na_def ea_def using sa by (rule valof_pos)
  have vb: "valof b = real nb * 2 powi eb" unfolding nb_def eb_def using sb by (rule valof_pos)
  have na: "0 < na" using pos unfolding va by (cases "na = 0") simp_all
  have nb: "0 < nb" using pos le unfolding vb by (cases "nb = 0") simp_all
  have "1 * 2 powi ea \<le> real na * 2 powi ea"
    using na p2_pos [of ea] by (intro mult_right_mono) simp_all
  also have "\<dots> \<le> real nb * 2 powi eb" using le by (simp add: va vb)
  also have "\<dots> < real (2 ^ 24) * 2 powi eb"
    using mant_less [of b] p2_pos [of eb] unfolding nb_def
    by (intro mult_strict_right_mono) (simp_all only: of_nat_less_iff)
  also have "\<dots> = 2 powi (24 + eb)" by (simp add: p2_add)
  finally have "2 powi ea < (2::real) powi (24 + eb)" by simp
  then have e: "ea < 24 + eb" by (simp only: p2_less)
  define d where "d = nat (eb - ea + 50)"
  have d: "int d = eb - ea + 50" using e by (simp add: d_def)
  define k where "k = ea - eb - 51"
  define N where "N = 2 * (na * 2 ^ 50 div nb) + (if na * 2 ^ 50 mod nb = 0 then 0 else 1)"
  have "real na * 2 powi ea * 2 powi (50 - ea) \<le> real nb * 2 powi eb * 2 powi (50 - ea)"
    using le p2_pos [of "50 - ea"] unfolding va vb by (intro mult_right_mono) simp_all
  then have "real na * 2 powi (ea + (50 - ea)) \<le> real nb * 2 powi (eb + (50 - ea))"
    by (simp only: p2_add mult.assoc)
  moreover have "(2::real) powi (ea + (50 - ea)) = 2 ^ 50" by simp
  moreover have "(2::real) powi (eb + (50 - ea)) = 2 ^ d"
  proof -
    have "0 \<le> eb + (50 - ea)" using e by simp
    then have "(2::real) powi (eb + (50 - ea)) = 2 ^ nat (eb + (50 - ea))" by (rule p2_nat)
    also have "nat (eb + (50 - ea)) = d" by (simp add: d_def algebra_simps)
    finally show ?thesis .
  qed
  ultimately have "real na * 2 ^ 50 \<le> real nb * 2 ^ d" by simp
  then have "real (na * 2 ^ 50) \<le> real (2 ^ d * nb)" by (simp add: mult.commute)
  then have "na * 2 ^ 50 \<le> 2 ^ d * nb" by (simp only: of_nat_le_iff)
  from sticky_quotient_le [OF nb this] have N: "N \<le> 2 * 2 ^ d" by (simp add: N_def)
  have "real N * 2 powi k \<le> real (2 * 2 ^ d) * 2 powi k"
    using N p2_pos [of k] by (intro mult_right_mono) (simp_all only: of_nat_le_iff less_imp_le)
  also have "real (2 * 2 ^ d) = 2 powi (1 + int d)" by (simp add: power_int_add)
  also have "2 powi (1 + int d) * 2 powi k = (2::real) powi (1 + int d + k)"
    by (simp only: p2_add)
  also have "1 + int d + k = 0" by (simp add: d k_def)
  finally have up: "real N * 2 powi k \<le> 1" by simp
  define v where "v = real N * 2 powi k"
  have v0: "0 \<le> v" unfolding v_def using p2_pos [of k] by simp
  have mg: "\<bar>v\<bar> = real N * 2 powi k" using v0 by (simp add: v_def)
  have sg: "v \<noteq> 0 \<Longrightarrow> False = (v < 0)" using v0 by simp
  have up': "\<bar>v\<bar> \<le> real 1 * 2 powi 0" using up v0 by (simp add: v_def)
  have c: "(1::nat) < 2 ^ 24" "- 149 \<le> (0::int)" "(0::int) \<le> 103" by simp_all
  have f: "fdiv a b = round_dy False N k"
    using fdiv_finite [OF fa fb] na nb sa sb by (simp add: N_def k_def na_def nb_def ea_def eb_def)
  show "is_finite (fdiv a b)" unfolding f by (rule round_dy_real(1) [OF mg sg up' c])
  show "0 \<le> valof (fdiv a b)" unfolding f by (rule round_dy_real(4) [OF mg sg up' c v0])
  have "\<bar>valof (round_dy False N k)\<bar> \<le> real 1 * 2 powi 0" by (rule round_dy_real(3) [OF mg sg up' c])
  then show "valof (fdiv a b) \<le> 1" unfolding f by simp
qed

text \<open>\<open>ldexp_float\<close> on a lane whose exponent field has room: the field grows by \<open>n\<close>, the
  sign and the fraction stay.\<close>

lemma join_fields:
  fixes x e :: "32 word"
  shows "take_bit 8 (drop_bit 23 (andnot gen_exp_mask x OR push_bit 23 (take_bit 8 e))) = take_bit 8 e"
    and "take_bit 23 (andnot gen_exp_mask x OR push_bit 23 (take_bit 8 e)) = take_bit 23 x"
    and "bit (andnot gen_exp_mask x OR push_bit 23 (take_bit 8 e)) 31 = bit x 31"
proof -
  show "take_bit 8 (drop_bit 23 (andnot gen_exp_mask x OR push_bit 23 (take_bit 8 e))) = take_bit 8 e"
    unfolding gen_exp_mask_bits andnot_def by (rule bit_word_eqI) (auto simp add: bit_simps)
  show "take_bit 23 (andnot gen_exp_mask x OR push_bit 23 (take_bit 8 e)) = take_bit 23 x"
    unfolding gen_exp_mask_bits andnot_def by (rule bit_word_eqI) (auto simp add: bit_simps)
  show "bit (andnot gen_exp_mask x OR push_bit 23 (take_bit 8 e)) 31 = bit x 31"
    unfolding gen_exp_mask_bits andnot_def by (auto simp add: bit_simps)
qed

lemma exp_field_word: "gen_exp_mask AND x = push_bit 23 (word_of_nat (fexp x))"
proof -
  have "gen_exp_mask AND x = push_bit 23 (take_bit 8 (drop_bit 23 x))"
    unfolding gen_exp_mask_bits by (rule bit_word_eqI) (auto simp add: bit_simps)
  then show ?thesis by (simp add: fexp_def)
qed

lemma ldexp_fields:
  assumes "fexp x + k < 256"
  shows "fexp (ldexp_float x (word_of_nat k)) = fexp x + k"
    and "ffrac (ldexp_float x (word_of_nat k)) = ffrac x"
    and "fsign (ldexp_float x (word_of_nat k)) = fsign x"
proof -
  define e :: "32 word" where "e = word_of_nat (k + fexp x)"
  have "take_bit 8 (k + fexp x) = k + fexp x" using assms by (simp add: take_bit_nat_eq_self)
  then have te: "take_bit 8 e = e" unfolding e_def take_bit_of_nat by (simp only:)
  have "k + fexp x < 2 ^ LENGTH(32)" using assms by simp
  then have ue: "unat e = k + fexp x" unfolding e_def unat_of_nat by (rule mod_less)
  have "slli (word_of_nat k) (16 + 7) + (gen_exp_mask AND x) = push_bit 23 e"
    unfolding exp_field_word slli_def e_def by (simp add: push_bit_add)
  then have l: "ldexp_float x (word_of_nat k) = andnot gen_exp_mask x OR push_bit 23 (take_bit 8 e)"
    by (simp add: ldexp_float_def Let_def te)
  have "fexp (ldexp_float x (word_of_nat k)) = unat (take_bit 8 e)"
    unfolding l by (simp only: fexp_def join_fields(1))
  then show "fexp (ldexp_float x (word_of_nat k)) = fexp x + k"
    by (simp only: te ue add.commute)
  show "ffrac (ldexp_float x (word_of_nat k)) = ffrac x"
    unfolding l ffrac_def join_fields(2) ..
  show "fsign (ldexp_float x (word_of_nat k)) = fsign x"
    unfolding l fsign_def join_fields(3) ..
qed

lemma pos_sign: "0 < valof w \<Longrightarrow> \<not> fsign w"
proof
  assume p: "0 < valof w" and "fsign w"
  then have "valof w = - (real (mant w) * 2 powi expo w)" by (simp add: valof_alt)
  with p mag_nonneg [of w] show False by linarith
qed

text \<open>The truncating conversion of a lane whose value is a natural number.\<close>

lemma truncate_nat:
  assumes fin: "is_finite w" and pos: "\<not> fsign w" and v: "valof w = real k" and k: "k < 2 ^ 31"
  shows "truncate_to_int w = word_of_nat k"
proof -
  have vw: "real (mant w) * 2 powi expo w = real k" using v pos by (simp add: valof_alt)
  have m: "(if 0 \<le> expo w then mant w * 2 ^ nat (expo w) else mant w div 2 ^ nat (- expo w)) = k"
  proof (cases "0 \<le> expo w")
    case True
    then have "real (mant w * 2 ^ nat (expo w)) = real k" using vw by (simp add: p2_nat)
    then have "mant w * 2 ^ nat (expo w) = k" by (simp only: of_nat_eq_iff)
    then show ?thesis using True by simp
  next
    case False
    then have "(2::real) powi expo w * 2 ^ nat (- expo w) = 1"
      using p2_nat [of "- expo w"] p2_add [of "expo w" "- expo w"] by simp
    then have "real (mant w) = real (mant w) * (2 powi expo w * 2 ^ nat (- expo w))" by simp
    also have "\<dots> = real k * 2 ^ nat (- expo w)" using vw by (simp add: mult.assoc [symmetric])
    also have "\<dots> = real (k * 2 ^ nat (- expo w))" by simp
    finally have "mant w = k * 2 ^ nat (- expo w)" by (simp only: of_nat_eq_iff)
    then have "mant w div 2 ^ nat (- expo w) = k" by simp
    then show ?thesis using False by simp
  qed
  show ?thesis unfolding truncate_to_int_def m Let_def using fin pos k by simp
qed

lemma exp_const_values:
  "valof log2e_f = 12102203 / 2 ^ 23" "valof ln2_hi = 355 / 512"
  "valof ln2_lo = - (14581891 / 2 ^ 36)"
  "is_finite log2e_f" "is_finite ln2_hi" "is_finite ln2_lo"
  by (simp_all add: is_finite_def valof_def fsign_def mant_def expo_def fexp_def ffrac_def
      log2e_f_def ln2_hi_def ln2_lo_def)

text \<open>The argument reduction of the exponential for an argument between \<open>5 / 4\<close> and 44:
  the multiple of \<open>ln 2\<close> is between 2 and 63 and the reduced argument is at most
  \<open>1 / 2\<close> in magnitude.\<close>

lemma exp_reduce:
  assumes fx: "is_finite x" and lo: "5 / 4 \<le> valof x" and hi: "valof x \<le> 44"
  shows "\<exists>k. 2 \<le> k \<and> k \<le> 63
           \<and> truncate_to_int (round_vec (fmul log2e_f x)) = word_of_nat k
           \<and> is_finite (fsub (fsub x (fmul (round_vec (fmul log2e_f x)) ln2_hi))
                              (fmul (round_vec (fmul log2e_f x)) ln2_lo))
           \<and> \<bar>valof (fsub (fsub x (fmul (round_vec (fmul log2e_f x)) ln2_hi))
                              (fmul (round_vec (fmul log2e_f x)) ln2_lo))\<bar> \<le> 1 / 2"
proof -
  define X where "X = valof x"
  define y where "y = fmul log2e_f x"
  define Y where "Y = valof y"
  define z where "z = round_vec y"
  have X: "5 / 4 \<le> X" "X \<le> 44" using lo hi by (simp_all add: X_def)
  have c1: "(1::nat) < 2 ^ 24" by simp
  \<comment> \<open>the product with \<open>log2 e\<close>\<close>
  have upy: "\<bar>valof log2e_f * valof x\<bar> \<le> real 1 * 2 powi 6"
    unfolding exp_const_values X_def [symmetric] using X by simp
  have fy: "is_finite y"
    unfolding y_def by (rule fmul_real(1) [OF exp_const_values(4) fx upy c1]) simp_all
  have "\<bar>valof y - valof log2e_f * valof x\<bar> \<le> 2 powi (max (6 - 24) (- 150))"
    unfolding y_def using upy by (intro fmul_real(3) [OF exp_const_values(4) fx upy c1]) simp_all
  then have ey: "\<bar>Y - 12102203 / 8388608 * X\<bar> \<le> 1 / 262144"
    unfolding exp_const_values X_def [symmetric] Y_def [symmetric] by (simp add: power_int_minus)
  have "\<bar>Y\<bar> < 8388608" using ey X by linarith
  then have sy: "\<bar>valof y\<bar> < 2 ^ 23" by (simp add: Y_def)
  \<comment> \<open>rounded to an integer\<close>
  from round_float_val [OF fy sy] obtain n :: int
    where vz: "valof z = of_int n" and fz: "is_finite z" and nz: "\<bar>Y - of_int n\<bar> \<le> 1 / 2"
    by (auto simp add: z_def round_vec_def Y_def)
  have "1 < real_of_int n" "real_of_int n < 64" using ey nz X by linarith+
  then have n: "2 \<le> n" "n \<le> 63" by simp_all
  define k where "k = nat n"
  have k: "2 \<le> k" "k \<le> 63" and nk: "real_of_int n = real k" using n by (simp_all add: k_def)
  define Z where "Z = real k"
  have Z: "2 \<le> Z" "Z \<le> 63" using k by (simp_all add: Z_def)
  have vz': "valof z = Z" using vz nk by (simp add: Z_def)
  have nz': "\<bar>Y - Z\<bar> \<le> 1 / 2" using nz nk by (simp add: Z_def)
  have sz: "\<not> fsign z" using vz' Z by (intro pos_sign) simp
  have tr: "truncate_to_int z = word_of_nat k"
    using fz sz vz' [unfolded Z_def] by (rule truncate_nat) (use k in simp)
  \<comment> \<open>the two products with the parts of \<open>ln 2\<close>\<close>
  define h where "h = fmul z ln2_hi"
  define H where "H = valof h"
  have uph: "\<bar>valof z * valof ln2_hi\<bar> \<le> real 1 * 2 powi 6"
    unfolding exp_const_values vz' using Z by simp
  have fh: "is_finite h"
    unfolding h_def by (rule fmul_real(1) [OF fz exp_const_values(5) uph c1]) simp_all
  have "\<bar>valof h - valof z * valof ln2_hi\<bar> \<le> 2 powi (max (6 - 24) (- 150))"
    unfolding h_def using uph by (intro fmul_real(3) [OF fz exp_const_values(5) uph c1]) simp_all
  then have eh: "\<bar>H - Z * (355 / 512)\<bar> \<le> 1 / 262144"
    unfolding exp_const_values vz' H_def [symmetric] by (simp add: power_int_minus)
  define l where "l = fmul z ln2_lo"
  define L where "L = valof l"
  have upl: "\<bar>valof z * valof ln2_lo\<bar> \<le> real 1 * 2 powi (- 6)"
    unfolding exp_const_values vz' using Z by (simp add: power_int_minus abs_mult)
  have fl: "is_finite l"
    unfolding l_def by (rule fmul_real(1) [OF fz exp_const_values(6) upl c1]) simp_all
  have "\<bar>valof l - valof z * valof ln2_lo\<bar> \<le> 2 powi (max (- 6 - 24) (- 150))"
    unfolding l_def using upl by (intro fmul_real(3) [OF fz exp_const_values(6) upl c1]) simp_all
  then have el: "\<bar>L + Z * (14581891 / 68719476736)\<bar> \<le> 1 / 1073741824"
    unfolding exp_const_values vz' L_def [symmetric] by (simp add: power_int_minus)
  \<comment> \<open>the two subtractions\<close>
  define r1 where "r1 = fsub x h"
  define R1 where "R1 = valof r1"
  have fnh: "is_finite (fneg h)" using fh by (simp add: is_finite_fneg)
  have "\<bar>X + - H\<bar> \<le> 1 / 2" using ey nz' eh X Z by linarith
  then have up1: "\<bar>valof x + valof (fneg h)\<bar> \<le> real 1 * 2 powi (- 1)"
    unfolding valof_fneg X_def [symmetric] H_def [symmetric] by (simp add: power_int_minus)
  have f1: "is_finite r1"
    unfolding r1_def fsub_def by (rule fadd_real(1) [OF fx fnh up1 c1]) simp_all
  have "\<bar>valof r1 - (valof x + valof (fneg h))\<bar> \<le> 2 powi (max (- 1 - 24) (- 150))"
    unfolding r1_def fsub_def using up1
    by (intro fadd_real(3) [OF fx fnh up1 c1]) simp_all
  then have e1: "\<bar>R1 - (X - H)\<bar> \<le> 1 / 33554432"
    unfolding valof_fneg X_def [symmetric] H_def [symmetric] R1_def [symmetric]
    by (simp add: power_int_minus)
  have fnl: "is_finite (fneg l)" using fl by (simp add: is_finite_fneg)
  have "\<bar>R1 + - L\<bar> \<le> 1 / 2" using ey nz' eh el e1 X Z by linarith
  then have up2: "\<bar>valof r1 + valof (fneg l)\<bar> \<le> real 1 * 2 powi (- 1)"
    unfolding valof_fneg R1_def [symmetric] L_def [symmetric] by (simp add: power_int_minus)
  have f2: "is_finite (fsub r1 l)"
    unfolding fsub_def by (rule fadd_real(1) [OF f1 fnl up2 c1]) simp_all
  have "\<bar>valof (fsub r1 l)\<bar> \<le> real 1 * 2 powi (- 1)"
    unfolding fsub_def by (rule fadd_real(2) [OF f1 fnl up2 c1]) simp_all
  then have b2: "\<bar>valof (fsub r1 l)\<bar> \<le> 1 / 2" by (simp add: power_int_minus)
  show ?thesis
    using k tr f2 b2 unfolding r1_def l_def h_def z_def y_def by blast
qed

lemma exp_coeff_values:
  "valof exp_c1 = 8388611 / 2 ^ 23" "valof exp_c2 = 16777205 / 2 ^ 25"
  "valof exp_c3 = 11184069 / 2 ^ 26" "valof exp_c4 = 11185724 / 2 ^ 28"
  "valof exp_c5 = 9041757 / 2 ^ 30" "valof exp_c6 = 11906680 / 2 ^ 33"
  "valof lit_1 = 1"
  by (simp_all add: valof_def fsign_def mant_def expo_def fexp_def ffrac_def
      exp_c1_def exp_c2_def exp_c3_def exp_c4_def exp_c5_def exp_c6_def lit_1_def)

lemma exp_coeffs:
  "is_finite exp_c1" "\<bar>valof exp_c1\<bar> \<le> 17 / 16"
  "is_finite exp_c2" "\<bar>valof exp_c2\<bar> \<le> 1 / 2"
  "is_finite exp_c3" "\<bar>valof exp_c3\<bar> \<le> 3 / 16"
  "is_finite exp_c4" "\<bar>valof exp_c4\<bar> \<le> 3 / 64"
  "is_finite exp_c5" "\<bar>valof exp_c5\<bar> \<le> 9 / 1024"
  "is_finite exp_c6" "\<bar>valof exp_c6\<bar> \<le> 1 / 512"
  "is_finite lit_1"
  unfolding exp_coeff_values
  by (simp_all add: is_finite_def fexp_def
      exp_c1_def exp_c2_def exp_c3_def exp_c4_def exp_c5_def exp_c6_def lit_1_def)

text \<open>The polynomial of the exponential on a reduced argument of magnitude at most
  \<open>1 / 2\<close> is a positive lane between \<open>5 / 16\<close> and \<open>27 / 16\<close>.\<close>

lemma exp_poly_bound:
  assumes fr: "is_finite r" and br: "\<bar>valof r\<bar> \<le> 1 / 2"
  shows "is_finite (fadd lit_1 (fmul r (fadd exp_c1 (fmul r (fadd exp_c2 (fmul r (fadd exp_c3
            (fmul r (fadd exp_c4 (fmul r (fadd exp_c5 (fmul r exp_c6))))))))))))
       \<and> \<not> fsign (fadd lit_1 (fmul r (fadd exp_c1 (fmul r (fadd exp_c2 (fmul r (fadd exp_c3
            (fmul r (fadd exp_c4 (fmul r (fadd exp_c5 (fmul r exp_c6))))))))))))
       \<and> 5 / 16 \<le> valof (fadd lit_1 (fmul r (fadd exp_c1 (fmul r (fadd exp_c2 (fmul r (fadd exp_c3
            (fmul r (fadd exp_c4 (fmul r (fadd exp_c5 (fmul r exp_c6))))))))))))
       \<and> valof (fadd lit_1 (fmul r (fadd exp_c1 (fmul r (fadd exp_c2 (fmul r (fadd exp_c3
            (fmul r (fadd exp_c4 (fmul r (fadd exp_c5 (fmul r exp_c6)))))))))))) \<le> 27 / 16"
proof -
  define t6 where "t6 = fmul r exp_c6"
  have t6: "is_finite t6 \<and> \<bar>valof t6\<bar> \<le> 1 / 1024"
    unfolding t6_def
    by (rule fmul_bound [OF fr exp_coeffs(11) br exp_coeffs(12), of "1 / 1024" 1 "- 10"]) simp_all
  define u5 where "u5 = fadd exp_c5 t6"
  have u5: "is_finite u5 \<and> \<bar>valof u5\<bar> \<le> 1 / 64"
    unfolding u5_def
    by (rule fadd_bound [OF exp_coeffs(9) conjunct1 [OF t6] exp_coeffs(10) conjunct2 [OF t6],
        of "1 / 64" 1 "- 6"]) simp_all
  define t5 where "t5 = fmul r u5"
  have t5: "is_finite t5 \<and> \<bar>valof t5\<bar> \<le> 1 / 128"
    unfolding t5_def
    by (rule fmul_bound [OF fr conjunct1 [OF u5] br conjunct2 [OF u5], of "1 / 128" 1 "- 7"])
      simp_all
  define u4 where "u4 = fadd exp_c4 t5"
  have u4: "is_finite u4 \<and> \<bar>valof u4\<bar> \<le> 1 / 16"
    unfolding u4_def
    by (rule fadd_bound [OF exp_coeffs(7) conjunct1 [OF t5] exp_coeffs(8) conjunct2 [OF t5],
        of "1 / 16" 1 "- 4"]) simp_all
  define t4 where "t4 = fmul r u4"
  have t4: "is_finite t4 \<and> \<bar>valof t4\<bar> \<le> 1 / 32"
    unfolding t4_def
    by (rule fmul_bound [OF fr conjunct1 [OF u4] br conjunct2 [OF u4], of "1 / 32" 1 "- 5"])
      simp_all
  define u3 where "u3 = fadd exp_c3 t4"
  have u3: "is_finite u3 \<and> \<bar>valof u3\<bar> \<le> 1 / 4"
    unfolding u3_def
    by (rule fadd_bound [OF exp_coeffs(5) conjunct1 [OF t4] exp_coeffs(6) conjunct2 [OF t4],
        of "1 / 4" 1 "- 2"]) simp_all
  define t3 where "t3 = fmul r u3"
  have t3: "is_finite t3 \<and> \<bar>valof t3\<bar> \<le> 1 / 8"
    unfolding t3_def
    by (rule fmul_bound [OF fr conjunct1 [OF u3] br conjunct2 [OF u3], of "1 / 8" 1 "- 3"])
      simp_all
  define u2 where "u2 = fadd exp_c2 t3"
  have u2: "is_finite u2 \<and> \<bar>valof u2\<bar> \<le> 5 / 8"
    unfolding u2_def
    by (rule fadd_bound [OF exp_coeffs(3) conjunct1 [OF t3] exp_coeffs(4) conjunct2 [OF t3],
        of "5 / 8" 5 "- 3"]) simp_all
  define t2 where "t2 = fmul r u2"
  have t2: "is_finite t2 \<and> \<bar>valof t2\<bar> \<le> 5 / 16"
    unfolding t2_def
    by (rule fmul_bound [OF fr conjunct1 [OF u2] br conjunct2 [OF u2], of "5 / 16" 5 "- 4"])
      simp_all
  define u1 where "u1 = fadd exp_c1 t2"
  have u1: "is_finite u1 \<and> \<bar>valof u1\<bar> \<le> 11 / 8"
    unfolding u1_def
    by (rule fadd_bound [OF exp_coeffs(1) conjunct1 [OF t2] exp_coeffs(2) conjunct2 [OF t2],
        of "11 / 8" 11 "- 3"]) simp_all
  define t1 where "t1 = fmul r u1"
  have t1: "is_finite t1 \<and> \<bar>valof t1\<bar> \<le> 11 / 16"
    unfolding t1_def
    by (rule fmul_bound [OF fr conjunct1 [OF u1] br conjunct2 [OF u1], of "11 / 16" 11 "- 4"])
      simp_all
  then have ft: "is_finite t1" and bt: "\<bar>valof t1\<bar> \<le> 11 / 16" by simp_all
  define v where "v = valof lit_1 + valof t1"
  have v: "5 / 16 \<le> v" "v \<le> 27 / 16" using bt unfolding v_def exp_coeff_values by linarith+
  have up: "\<bar>valof lit_1 + valof t1\<bar> \<le> real 27 * 2 powi (- 4)"
    using v by (simp add: v_def power_int_minus)
  have low: "real 5 * 2 powi (- 4) \<le> \<bar>valof lit_1 + valof t1\<bar>"
    using v by (simp add: v_def power_int_minus)
  have c: "(27::nat) < 2 ^ 24" "- 149 \<le> (- 4::int)" "(- 4::int) \<le> 103" "(5::nat) < 2 ^ 24"
    by simp_all
  note a = fadd_real [OF exp_coeffs(13) ft up c(1,2,3)]
  have pos: "0 \<le> valof (fadd lit_1 t1)" using a(5) v by (simp add: v_def)
  have "real 5 * 2 powi (- 4) \<le> \<bar>valof (fadd lit_1 t1)\<bar>" using c(4) c(2) low by (rule a(4))
  then have l: "5 / 16 \<le> valof (fadd lit_1 t1)" using pos by (simp add: power_int_minus)
  have u: "valof (fadd lit_1 t1) \<le> 27 / 16" using a(2) pos by (simp add: power_int_minus)
  have "valof lit_1 + valof t1 \<noteq> 0" using v by (simp add: v_def)
  from a(7) [OF this] have s: "\<not> fsign (fadd lit_1 t1)" using v by (simp add: v_def)
  show ?thesis
    using a(1) s l u unfolding t1_def u1_def t2_def u2_def t3_def u3_def t4_def u4_def t5_def
      u5_def t6_def by blast
qed

lemma two_f_fields: "is_finite two_f" "\<not> fsign two_f" "valof two_f = 2"
  by (simp_all add: is_finite_def valof_def fsign_def mant_def expo_def fexp_def ffrac_def
      two_f_def)

lemma gen_one_sign: "\<not> fsign gen_one"
  by (simp add: fsign_def gen_one_def)

text \<open>The medium branch on a magnitude between \<open>5 / 8\<close> and 22: the exponential of twice
  the magnitude is at least 1, so the quotient is at most 1 and the difference \<open>1 - 2 / (e + 1)\<close>
  has a clear sign bit.\<close>

lemma exp_tanh_medium:
  assumes fa: "is_finite a" and sa: "\<not> fsign a" and lo: "5 / 8 \<le> valof a" and hi: "valof a \<le> 22"
  shows "is_finite (vec_exp_tanh_float (fadd a a))"
    and "\<not> fsign (vec_exp_tanh_float (fadd a a))"
    and "1 \<le> valof (vec_exp_tanh_float (fadd a a))"
    and "valof (vec_exp_tanh_float (fadd a a)) \<le> 2 ^ 64"
proof -
  define x where "x = fadd a a"
  \<comment> \<open>the doubling is exact\<close>
  have nz: "valof a \<noteq> 0" using lo by simp
  have "2 powi expo a \<le> \<bar>valof a\<bar>" using nz by (rule mag_ge_unit)
  also have "\<dots> < 2 powi 5" using lo hi by simp
  finally have ea: "expo a < 5" by (simp only: p2_less)
  have "valof a + valof a = real (mant a) * (2 powi expo a * 2 powi 1)"
    using sa by (simp add: valof_alt)
  also have "\<dots> = real_of_int (int (mant a)) * 2 powi (expo a + 1)" by (simp only: p2_add)
  finally have rep: "valof a + valof a = real_of_int (int (mant a)) * 2 powi (expo a + 1)" .
  have z: "\<bar>int (mant a)\<bar> < 2 ^ 24" using mant_less [of a] by simp
  have j: "- 149 \<le> expo a + 1" "expo a + 1 \<le> 103" using expo_lower [of a] ea by simp_all
  note d = fadd_exact [OF fa fa rep z j]
  have fx: "is_finite x" unfolding x_def by (rule d(2))
  have vx: "valof x = 2 * valof a" unfolding x_def using d(1) by simp
  have X: "5 / 4 \<le> valof x" "valof x \<le> 44" using lo hi by (simp_all add: vx)
  \<comment> \<open>reduction and polynomial\<close>
  define r where "r = fsub (fsub x (fmul (round_vec (fmul log2e_f x)) ln2_hi))
                              (fmul (round_vec (fmul log2e_f x)) ln2_lo)"
  from exp_reduce [OF fx X] obtain k where k: "2 \<le> k" "k \<le> 63"
    and tr: "truncate_to_int (round_vec (fmul log2e_f x)) = word_of_nat k"
    and fr: "is_finite r" and br: "\<bar>valof r\<bar> \<le> 1 / 2"
    unfolding r_def by blast
  define p where "p = fadd lit_1 (fmul r (fadd exp_c1 (fmul r (fadd exp_c2 (fmul r (fadd exp_c3
            (fmul r (fadd exp_c4 (fmul r (fadd exp_c5 (fmul r exp_c6)))))))))))"
  from exp_poly_bound [OF fr br] have fp: "is_finite p" and sp: "\<not> fsign p"
    and lp: "5 / 16 \<le> valof p" and up: "valof p \<le> 27 / 16"
    unfolding p_def by blast+
  have E: "vec_exp_tanh_float x = ldexp_float p (word_of_nat k)"
    unfolding p_def r_def by (simp add: vec_exp_tanh_float_def Let_def tr)
  \<comment> \<open>the exponent field of the polynomial\<close>
  have vp: "valof p = real (mant p) * 2 powi expo p" using sp by (rule valof_pos)
  have "(2::real) powi (- 2) < 5 / 16" by (simp add: power_int_minus)
  also note lp
  also have "valof p < 2 powi (int (fexp p) - 126)" unfolding vp by (rule mag_upper)
  finally have "- 2 < int (fexp p) - 126" by (simp only: p2_less)
  then have e1: "125 \<le> fexp p" by simp
  then have "0 < fexp p" by simp
  then have "2 powi (int (fexp p) - 127) \<le> valof p" unfolding vp by (rule mag_lower)
  also note up
  also have "(27 / 16::real) < 2 powi 1" by simp
  finally have "int (fexp p) - 127 < 1" by (simp only: p2_less)
  then have e2: "fexp p \<le> 127" by simp
  have room: "fexp p + k < 256" using e2 k by simp
  note lf = ldexp_fields [OF room]
  define e where "e = vec_exp_tanh_float x"
  have fe: "fexp e = fexp p + k" and se: "\<not> fsign e" using lf(1,3) sp by (simp_all add: e_def E)
  have e3: "127 \<le> fexp e" "fexp e \<le> 190" using fe e1 e2 k by simp_all
  have ve: "valof e = real (mant e) * 2 powi expo e" using se by (rule valof_pos)
  show "is_finite (vec_exp_tanh_float (fadd a a))"
    using e3 by (simp add: is_finite_def e_def x_def)
  show "\<not> fsign (vec_exp_tanh_float (fadd a a))" using se by (simp add: e_def x_def)
  have "0 < fexp e" using e3 by simp
  then have "2 powi (int (fexp e) - 127) \<le> valof e" unfolding ve by (rule mag_lower)
  moreover have "(2::real) powi 0 \<le> 2 powi (int (fexp e) - 127)" using e3 by (intro p2_mono) simp
  ultimately show "1 \<le> valof (vec_exp_tanh_float (fadd a a))" by (simp add: e_def x_def)
  have "valof e < 2 powi (int (fexp e) - 126)" unfolding ve by (rule mag_upper)
  moreover have "(2::real) powi (int (fexp e) - 126) \<le> 2 powi 64" using e3 by (intro p2_mono) simp
  ultimately show "valof (vec_exp_tanh_float (fadd a a)) \<le> 2 ^ 64" by (simp add: e_def x_def)
qed

lemma tanh_medium_sign:
  assumes fa: "is_finite a" and sa: "\<not> fsign a" and lo: "5 / 8 \<le> valof a" and hi: "valof a \<le> 22"
  shows "\<not> fsign (fsub gen_one (fdiv two_f (fadd (vec_exp_tanh_float (fadd a a)) gen_one)))"
proof -
  define e where "e = vec_exp_tanh_float (fadd a a)"
  note m = exp_tanh_medium [OF fa sa lo hi, folded e_def]
  define d where "d = fadd e gen_one"
  define v where "v = valof e + valof gen_one"
  have v: "2 \<le> v" "v \<le> 2 ^ 65" using m(3,4) by (simp_all add: v_def gen_one_fields)
  have up: "\<bar>valof e + valof gen_one\<bar> \<le> real 1 * 2 powi 65" using v by (simp add: v_def)
  have low: "real 1 * 2 powi 1 \<le> \<bar>valof e + valof gen_one\<bar>" using v by (simp add: v_def)
  have c: "(1::nat) < 2 ^ 24" "- 149 \<le> (65::int)" "(65::int) \<le> 103" "- 149 \<le> (1::int)"
    "- 149 \<le> (0::int)" "(0::int) \<le> 103" by simp_all
  note a = fadd_real [OF m(1) gen_one_fields(1) up c(1,2,3)]
  have fd: "is_finite d" unfolding d_def by (rule a(1))
  have "valof e + valof gen_one \<noteq> 0" using v by (simp add: v_def)
  from a(7) [OF this] have sd: "\<not> fsign d" using v by (simp add: v_def d_def)
  have pos: "0 \<le> valof d" unfolding d_def using a(5) v by (simp add: v_def)
  have "real 1 * 2 powi 1 \<le> \<bar>valof d\<bar>" unfolding d_def using c(1) c(4) low by (rule a(4))
  then have vd: "2 \<le> valof d" using pos by simp
  define q where "q = fdiv two_f d"
  have t: "0 < valof two_f" "valof two_f \<le> valof d" using vd by (simp_all add: two_f_fields)
  note dv = fdiv_le_one [OF two_f_fields(1) fd two_f_fields(2) sd t, folded q_def]
  have fq: "is_finite (fneg q)" using dv(1) by (simp add: is_finite_fneg)
  define w where "w = valof gen_one + valof (fneg q)"
  have w: "0 \<le> w" "w \<le> 1" using dv(2,3) by (simp_all add: w_def gen_one_fields valof_fneg)
  have upw: "\<bar>valof gen_one + valof (fneg q)\<bar> \<le> real 1 * 2 powi 0" using w by (simp add: w_def)
  note b = fadd_real [OF gen_one_fields(1) fq upw c(1,5,6)]
  have "\<not> fsign (fadd gen_one (fneg q))"
  proof (cases "w = 0")
    case True
    then have "valof gen_one + valof (fneg q) = 0" by (simp add: w_def)
    from b(8) [OF this] show ?thesis by (simp add: gen_one_sign)
  next
    case False
    then have "valof gen_one + valof (fneg q) \<noteq> 0" by (simp add: w_def)
    from b(7) [OF this] show ?thesis using w by (simp add: w_def)
  qed
  then show ?thesis by (simp add: fsub_def q_def d_def e_def)
qed

subsection \<open>Saturation of the exponential\<close>

lemma exp_clamp_form:
  "vec_exp_float x =
     select (select (vec_exp_tanh_float x) max_float (mask_gt x maxlogf)) gen_zero
       (mask_lt x minlogf)"
  by (simp add: vec_exp_float_def vec_exp_tanh_float_def Let_def gen_one_def lit_1_def)





lemma logf_bounds_not_nan: "\<not> is_nan maxlogf" "\<not> is_nan minlogf"
  by (simp_all add: is_nan_def maxlogf_def minlogf_def fexp_def)






text \<open>C7: for every lane whose value lies between those of \<open>minlogf\<close> and \<open>maxlogf\<close>,
  the unclamped exponential agrees with the clamped one; the clamped one is the unclamped
  one followed by the two boundary selects and nothing else.\<close>

theorem exp_tanh_agrees:
  "vec_exp_float x =
     select (select (vec_exp_tanh_float x) max_float (mask_gt x maxlogf)) gen_zero
       (mask_lt x minlogf)
   \<and> (valof minlogf \<le> valof x \<and> valof x \<le> valof maxlogf
        \<longrightarrow> vec_exp_tanh_float x = vec_exp_float x)"
proof (intro conjI impI)
  show "vec_exp_float x =
     select (select (vec_exp_tanh_float x) max_float (mask_gt x maxlogf)) gen_zero
       (mask_lt x minlogf)"
    by (rule exp_clamp_form)
next
  assume a: "valof minlogf \<le> valof x \<and> valof x \<le> valof maxlogf"
  have "\<not> fgt x maxlogf \<and> \<not> flt x minlogf"
  proof (cases "is_nan x")
    case True
    then show ?thesis by (simp add: fgt_def flt_def)
  next
    case False
    with a show ?thesis
      by (simp add: fgt_valof flt_valof logf_bounds_not_nan)
  qed
  then show "vec_exp_tanh_float x = vec_exp_float x"
    by (simp add: exp_clamp_form mask_gt_def mask_lt_def select_false)
qed

theorem exp_tanh_agrees_witness:
  "valof minlogf \<le> valof 0x3F800000 \<and> valof 0x3F800000 \<le> valof maxlogf
   \<and> vec_exp_tanh_float 0x3F800000 = vec_exp_float 0x3F800000"
proof -
  have a: "valof minlogf \<le> valof 0x3F800000 \<and> valof 0x3F800000 \<le> valof maxlogf"
    by (simp add: valof_def maxlogf_def minlogf_def fsign_def mant_def expo_def fexp_def
        ffrac_def)
  show ?thesis using a exp_tanh_agrees [of "0x3F800000", THEN conjunct2] by blast
qed

subsection \<open>Arc sine and arc cosine outside the domain\<close>

lemma asin_acos_guard:
  "fgt (x AND gen_abs_mask) gen_one \<Longrightarrow>
     vec_asin_float x = gen_zero \<and> vec_acos_float x = gen_zero"
  by (simp add: vec_asin_float_def vec_acos_float_def Let_def mask_gt_def select_true)

text \<open>C4: for every lane \<open>x\<close> that is not a NaN and has \<open>|x| > 1\<close>, \<open>vec_asin_float\<close> and
  \<open>vec_acos_float\<close> return the lane 0, which is not a NaN; the witness has \<open>asin 2\<close> and
  \<open>acos (-2)\<close>.\<close>

theorem asin_acos_out_of_domain:
  "\<not> is_nan x \<Longrightarrow> 1 < \<bar>valof x\<bar> \<Longrightarrow>
     vec_asin_float x = gen_zero \<and> vec_acos_float x = gen_zero \<and> \<not> is_nan gen_zero"
proof -
  assume n: "\<not> is_nan x" and a: "1 < \<bar>valof x\<bar>"
  have "fgt (x AND gen_abs_mask) gen_one"
    using n a by (simp add: fgt_valof is_nan_abs gen_one_not_nan valof_abs gen_one_fields)
  then show ?thesis
    using asin_acos_guard [of x] by (simp add: is_nan_def fexp_def gen_zero_def)
qed

theorem asin_acos_out_of_domain_witness:
  "\<not> is_nan 0x40000000 \<and> valof 0x40000000 = 2 \<and> vec_asin_float 0x40000000 = 0
   \<and> \<not> is_nan 0xC0000000 \<and> valof 0xC0000000 = - 2 \<and> vec_acos_float 0xC0000000 = 0"
proof -
  have n: "\<not> is_nan 0x40000000" "\<not> is_nan 0xC0000000" by (simp_all add: is_nan_def fexp_def)
  have v: "valof 0x40000000 = 2" "valof 0xC0000000 = - 2"
    by (simp_all add: valof_def fsign_def mant_def expo_def fexp_def ffrac_def)
  have a: "1 < \<bar>valof 0x40000000\<bar>" "1 < \<bar>valof 0xC0000000\<bar>" by (simp_all add: v)
  show ?thesis
    using n v asin_acos_out_of_domain [OF n(1) a(1)] asin_acos_out_of_domain [OF n(2) a(2)]
    by (simp add: gen_zero_def)
qed

subsection \<open>Tangent and arc tangent at zero\<close>

text \<open>C10: at the input 0 the tangent divides \<open>-1\<close> by its polynomial value 0 and the arc
  tangent divides \<open>-1\<close> by the magnitude 0; both quotients are the lane \<open>0xFF800000\<close> (minus
  infinity).  In the tangent the polynomial mask is all ones, so \<open>select\<close> takes
  \<^verbatim>\<open>approx\<close>; in the arc tangent both range masks are 0, so \<open>select\<close> takes
  \<^verbatim>\<open>arg_range0\<close>.  Both functions return the lane 0.\<close>

theorem tan_atan_zero:
  "tan_branches 0 = (0xFF800000, 0, - 1) \<and> fdiv minus_one 0 = 0xFF800000
   \<and> vec_tan_float 0 = 0
   \<and> atan_ranges 0 = (0, 0xBF800000, 0xFF800000, 0, 0) \<and> fdiv (fneg gen_one) 0 = 0xFF800000
   \<and> vec_atan_float 0 = 0"
proof -
  have t: "tan_branches 0 = (0xFF800000, 0, - 1)"
    by (simp add: tan_branches_def feval cong: let_weak_cong)
  have a: "atan_ranges 0 = (0, 0xBF800000, 0xFF800000, 0, 0)"
    by (simp add: atan_ranges_def feval cong: let_weak_cong)
  have d: "fdiv minus_one 0 = 0xFF800000" "fdiv (fneg gen_one) 0 = 0xFF800000"
    by (simp_all add: feval cong: let_weak_cong)
  have vt: "vec_tan_float 0 = 0"
    by (simp add: vec_tan_float_def t gen_defs lane_defs cong: let_weak_cong)
  have va: "vec_atan_float 0 = 0"
    by (simp add: vec_atan_float_def a feval cong: let_weak_cong)
  show ?thesis using t a d vt va by simp
qed

subsection \<open>Arc cosine at the region boundary\<close>

lemma asin_minus_half: "vec_asin_float 0xBF000000 = 0xBF060A92"
  by (simp add: vec_asin_float_def feval cong: let_weak_cong)

text \<open>C2 at the endpoint \<open>x = -0.5\<close> (the lane \<open>0xBF000000\<close>): the code takes the outer
  formula of the region \<open>x < -0.5\<close>, \<open>pi - 2 * asin\<close>, on the unreduced argument, and returns
  \<open>0x40860A92\<close> (about 4.18879); the middle region's \<open>pi/2 - asin x\<close> is \<open>0x40060A92\<close>
  (about 2.09440, the arc cosine of \<open>-0.5\<close>).\<close>

theorem acos_minus_half:
  "vec_acos_float 0xBF000000 = 0x40860A92
   \<and> fsub pi_f (fadd (vec_asin_float 0xBF000000) (vec_asin_float 0xBF000000)) = 0x40860A92
   \<and> fsub pi_2_f (vec_asin_float 0xBF000000) = 0x40060A92"
proof -
  have "vec_acos_float 0xBF000000 = 0x40860A92"
    by (simp add: vec_acos_float_def asin_minus_half feval cong: let_weak_cong)
  moreover have "fsub pi_f (fadd 0xBF060A92 0xBF060A92) = 0x40860A92"
    by (simp add: feval cong: let_weak_cong)
  moreover have "fsub pi_2_f 0xBF060A92 = 0x40060A92"
    by (simp add: feval cong: let_weak_cong)
  ultimately show ?thesis by (simp add: asin_minus_half)
qed

text \<open>Away from that endpoint the three regions are as the claim has them, for every lane
  of magnitude at most 1.\<close>

lemma half_fields: "\<not> is_nan gen_05" "valof gen_05 = 1 / 2" "\<not> is_nan minus_05"
  "valof minus_05 = - 1 / 2"
  by (simp_all add: is_nan_def valof_def gen_05_def minus_05_def fsign_def mant_def expo_def
      fexp_def ffrac_def)

lemma acos_regions:
  assumes n: "\<not> is_nan x" and d: "\<bar>valof x\<bar> \<le> 1"
  shows "1 / 2 < valof x \<Longrightarrow>
           vec_acos_float x =
             fadd (vec_asin_float (fsqrt (fmul (fsub gen_one (x AND gen_abs_mask)) gen_05)))
                  (vec_asin_float (fsqrt (fmul (fsub gen_one (x AND gen_abs_mask)) gen_05)))"
    and "- 1 / 2 < valof x \<Longrightarrow> valof x \<le> 1 / 2 \<Longrightarrow>
           vec_acos_float x = fsub pi_2_f (vec_asin_float x)"
    and "valof x < - 1 / 2 \<Longrightarrow>
           vec_acos_float x =
             fsub pi_f
               (fadd (vec_asin_float (fsqrt (fmul (fsub gen_one (x AND gen_abs_mask)) gen_05)))
                     (vec_asin_float (fsqrt (fmul (fsub gen_one (x AND gen_abs_mask)) gen_05))))"
proof -
  have g1: "fgt (x AND gen_abs_mask) gen_one \<longleftrightarrow> False"
    using n d by (simp add: fgt_valof is_nan_abs gen_one_not_nan valof_abs gen_one_fields)
  have g2: "fgt (x AND gen_abs_mask) gen_05 \<longleftrightarrow> 1 / 2 < \<bar>valof x\<bar>"
    using n by (simp add: fgt_valof is_nan_abs half_fields valof_abs)
  have g3: "fgt x gen_05 \<longleftrightarrow> 1 / 2 < valof x"
    using n by (simp add: fgt_valof half_fields)
  have g4: "fgt x minus_05 \<longleftrightarrow> - 1 / 2 < valof x"
    using n by (simp add: fgt_valof half_fields)
  note m = vec_acos_float_def Let_def mask_gt_def g1 g2 g3 g4 select_true select_false
  show "1 / 2 < valof x \<Longrightarrow>
           vec_acos_float x =
             fadd (vec_asin_float (fsqrt (fmul (fsub gen_one (x AND gen_abs_mask)) gen_05)))
                  (vec_asin_float (fsqrt (fmul (fsub gen_one (x AND gen_abs_mask)) gen_05)))"
    by (simp add: m)
  show "- 1 / 2 < valof x \<Longrightarrow> valof x \<le> 1 / 2 \<Longrightarrow>
           vec_acos_float x = fsub pi_2_f (vec_asin_float x)"
    by (simp add: m abs_if)
  show "valof x < - 1 / 2 \<Longrightarrow>
           vec_acos_float x =
             fsub pi_f
               (fadd (vec_asin_float (fsqrt (fmul (fsub gen_one (x AND gen_abs_mask)) gen_05)))
                     (vec_asin_float (fsqrt (fmul (fsub gen_one (x AND gen_abs_mask)) gen_05))))"
    by (simp add: m abs_if)
qed

text \<open>C9 at the same input: the value returned for \<open>acos (-0.5)\<close> is \<open>8784530 / 2 ^ 21\<close>,
  while the arc cosine of \<open>-1/2\<close> is \<open>2 * pi / 3\<close>, less than \<open>8 / 3\<close>; the relative error
  is far above \<open>5e-7\<close>.\<close>

theorem acos_minus_half_error:
  "valof 0xBF000000 = - 1 / 2
   \<and> 5 / 10 ^ 7 * \<bar>arccos (- 1 / 2)\<bar> < \<bar>valof (vec_acos_float 0xBF000000) - arccos (- 1 / 2)\<bar>"
proof -
  have x: "valof 0xBF000000 = - 1 / 2"
    by (simp add: valof_def fsign_def mant_def expo_def fexp_def ffrac_def)
  have "vec_acos_float 0xBF000000 = 0x40860A92"
    by (simp add: vec_acos_float_def asin_minus_half feval cong: let_weak_cong)
  moreover have "valof 0x40860A92 = 8784530 / 2 ^ 21"
    by (simp add: valof_def fsign_def mant_def expo_def fexp_def ffrac_def)
  ultimately have v: "valof (vec_acos_float 0xBF000000) = 8784530 / 2 ^ 21" by simp
  have "arccos (- (1 / 2)) = pi - arccos (1 / 2)" by (rule arccos_minus) simp_all
  then have a: "arccos (- 1 / 2) = 2 * pi / 3" by simp
  have p: "0 < pi" "pi < 4" using pi_gt_zero pi_less_4 by simp_all
  show ?thesis unfolding v a using x p by (simp add: abs_real_def field_simps)
qed

subsection \<open>Symmetry\<close>

lemma sin_odd: "vec_sin_float (fneg x) = fneg (vec_sin_float x)"
  unfolding vec_sin_float_def Let_def abs_fneg sign_fneg
  by (simp add: fneg_def ac_simps)

lemma cos_even: "vec_cos_float (fneg x) = vec_cos_float x"
  unfolding vec_cos_float_def Let_def abs_fneg by (rule refl)

lemma atan_odd: "vec_atan_float (fneg x) = fneg (vec_atan_float x)"
  unfolding vec_atan_float_def Let_def abs_fneg sign_fneg
  by (simp add: fneg_def ac_simps)

lemma fgt_22_not_small: "fgt a maxlogf_2 \<Longrightarrow> \<not> flt a limit_small"
  by (simp add: fgt_def flt_def fkey_def maxlogf_2_def limit_small_def fsign_def gen_abs_mask_def
      split: if_splits)

lemma tanh_large:
  "fgt (x XOR (x AND gen_sign_mask)) maxlogf_2 \<Longrightarrow>
     vec_tanh_float x = gen_one OR (x AND gen_sign_mask)"
  by (simp add: vec_tanh_float_def Let_def mask_gt_def mask_lt_def select_true select_false
      fgt_22_not_small)

lemma tanh_odd_large:
  assumes "fgt (x AND gen_abs_mask) maxlogf_2"
  shows "vec_tanh_float (fneg x) = fneg (vec_tanh_float x)"
proof -
  have a: "x XOR (x AND gen_sign_mask) = x AND gen_abs_mask"
    by (rule xor_sign_is_abs)
  have b: "fneg x XOR (fneg x AND gen_sign_mask) = x AND gen_abs_mask"
    using xor_sign_is_abs [of "fneg x"] by (simp add: abs_fneg)
  have one: "\<not> bit gen_one 31" by (simp add: gen_one_def)
  have l: "vec_tanh_float (fneg x) = gen_one OR (fneg x AND gen_sign_mask)"
    using assms by (intro tanh_large) (simp only: b)
  have r: "vec_tanh_float x = gen_one OR (x AND gen_sign_mask)"
    using assms by (intro tanh_large) (simp only: a)
  show ?thesis
    unfolding l r sign_fneg or_sign_flip [OF one] by (simp add: fneg_def)
qed

lemma tanh_zero: "vec_tanh_float 0 = 0"
  by (simp add: vec_tanh_float_def vec_exp_tanh_float_def round_vec_def vec_round_float_def
      ldexp_float_def feval cong: let_weak_cong)

lemma tanh_minus_zero: "vec_tanh_float 0x80000000 = 0"
  by (simp add: vec_tanh_float_def vec_exp_tanh_float_def round_vec_def vec_round_float_def
      ldexp_float_def feval cong: let_weak_cong)

lemma zero_lanes: "valof x = 0 \<longleftrightarrow> x = 0 \<or> x = gen_sign_mask"
proof -
  have "valof x = 0 \<longleftrightarrow> real (mant x) * 2 powi expo x = 0" by (simp add: valof_alt)
  also have "\<dots> \<longleftrightarrow> unat (x AND gen_abs_mask) = 0" by (simp only: mag_zero_iff key_mag)
  also have "\<dots> \<longleftrightarrow> x AND gen_abs_mask = 0" by (simp add: unat_eq_0)
  also have "\<dots> \<longleftrightarrow> x = 0 \<or> x = gen_sign_mask"
  proof
    assume z: "x AND gen_abs_mask = 0"
    have b: "\<not> bit x n" if "n < 31" for n
    proof -
      have "bit (x AND gen_abs_mask) n = bit x n" using that by (simp add: bit_and_iff bit_abs_mask)
      then show ?thesis by (simp add: z)
    qed
    show "x = 0 \<or> x = gen_sign_mask"
    proof (cases "bit x 31")
      case True
      have "x = gen_sign_mask"
      proof (rule bit_word_eqI)
        fix n assume "n < LENGTH(32)"
        then have "n < 31 \<or> n = 31" by auto
        then show "bit x n = bit gen_sign_mask n" using b True by (auto simp add: bit_sign_mask)
      qed
      then show ?thesis ..
    next
      case False
      have "x = 0"
      proof (rule bit_word_eqI)
        fix n assume "n < LENGTH(32)"
        then have "n < 31 \<or> n = 31" by auto
        then show "bit x n = bit (0::32 word) n" using b False by auto
      qed
      then show ?thesis ..
    qed
  next
    assume "x = 0 \<or> x = gen_sign_mask"
    then show "x AND gen_abs_mask = 0" by (auto simp add: gen_abs_mask_def gen_sign_mask_def)
  qed
  finally show ?thesis .
qed

lemma maxlogf_2_fields: "\<not> is_nan maxlogf_2" "valof maxlogf_2 = 22"
  by (simp_all add: is_nan_def valof_def maxlogf_2_def fsign_def mant_def expo_def
      fexp_def ffrac_def)

text \<open>The hyperbolic tangent is odd, bit for bit, on every lane other than the two zeros:
  NaN lanes, the small, the medium and the large branch.\<close>

lemma tanh_odd:
  assumes "x \<noteq> 0" and "x \<noteq> gen_sign_mask"
  shows "vec_tanh_float (fneg x) = fneg (vec_tanh_float x)"
proof -
  define a where "a = x AND gen_abs_mask"
  have nz: "valof x \<noteq> 0" using assms by (simp add: zero_lanes)
  consider (nan) "is_nan x" | (large) "fgt a maxlogf_2" | (small) "flt a limit_small"
    | (medium) "\<not> is_nan x" "\<not> fgt a maxlogf_2" "\<not> flt a limit_small" by blast
  then show ?thesis
  proof cases
    case nan then show ?thesis by (rule tanh_nan_odd)
  next
    case large then show ?thesis unfolding a_def by (rule tanh_odd_large)
  next
    case small then show ?thesis unfolding a_def using nz by (rule tanh_small_odd)
  next
    case medium
    have na: "\<not> is_nan a" using medium(1) by (simp add: a_def is_nan_abs)
    have va: "valof a = \<bar>valof x\<bar>" unfolding a_def by (rule valof_abs)
    have hi: "valof a \<le> 22" using medium(2) na by (simp add: fgt_valof maxlogf_2_fields)
    have lo: "5 / 8 \<le> valof a" using medium(3) na by (simp add: flt_valof limit_small_fields)
    have fa: "is_finite a" using na hi by (intro below_is_finite) (simp_all add: va)
    have sa: "\<not> fsign a" unfolding a_def by (rule fields_and_abs(3))
    from tanh_medium_sign [OF fa sa lo hi] show ?thesis
      using medium(2,3) unfolding a_def by (intro tanh_medium_odd)
  qed
qed

lemma tanh_one: "vec_tanh_float 0x3F800000 = 0x3F42F7D5"
  by (simp add: vec_tanh_float_def vec_exp_tanh_float_def round_vec_def vec_round_float_def
      ldexp_float_def feval cong: let_weak_cong)

text \<open>C6 fails for the hyperbolic tangent at the two zeros: \<open>tanh (-0)\<close> and \<open>tanh (+0)\<close>
  are both the lane \<open>+0\<close>, so \<open>tanh (-0)\<close> is not the lane \<open>- tanh (+0) = -0\<close>, and
  \<open>tanh (- (-0)) = +0\<close> is not the lane \<open>- tanh (-0) = -0\<close>.\<close>

theorem tanh_symmetry_counterexample:
  "vec_tanh_float (fneg 0) \<noteq> fneg (vec_tanh_float 0)
   \<and> vec_tanh_float (fneg 0x80000000) \<noteq> fneg (vec_tanh_float 0x80000000)"
proof -
  have "fneg 0 = 0x80000000" "fneg 0x80000000 = 0"
    by (simp_all add: fneg_def gen_sign_mask_def)
  then show ?thesis by (simp add: tanh_zero tanh_minus_zero)
qed

text \<open>C6 as amended: the sine and the arc tangent are odd and the cosine is even, bit for
  bit, for every lane; the hyperbolic tangent is odd, bit for bit, for every lane other than
  the two zeros \<open>+0\<close> and \<open>-0\<close>: in the small branch, in the medium branch, in the large
  branch and on a NaN lane.\<close>

theorem symmetry:
  "vec_sin_float (fneg x) = fneg (vec_sin_float x)
   \<and> vec_cos_float (fneg x) = vec_cos_float x
   \<and> vec_atan_float (fneg x) = fneg (vec_atan_float x)
   \<and> (x \<noteq> 0 \<and> x \<noteq> gen_sign_mask
        \<longrightarrow> vec_tanh_float (fneg x) = fneg (vec_tanh_float x))"
  by (simp add: sin_odd cos_even atan_odd tanh_odd)

theorem symmetry_witness:
  "(0x3F800000::f32) \<noteq> 0 \<and> 0x3F800000 \<noteq> gen_sign_mask
   \<and> vec_tanh_float 0x3F800000 = 0x3F42F7D5
   \<and> vec_tanh_float (fneg 0x3F800000) = 0xBF42F7D5
   \<and> vec_sin_float (fneg 0x3F800000) = fneg (vec_sin_float 0x3F800000)"
proof -
  have a: "(0x3F800000::f32) \<noteq> 0" "(0x3F800000::f32) \<noteq> gen_sign_mask"
    by (simp_all add: gen_sign_mask_def)
  have n: "fneg 0x3F42F7D5 = 0xBF42F7D5" by (simp add: fneg_def gen_sign_mask_def)
  show ?thesis using a symmetry [of "0x3F800000"] by (simp add: tanh_one n)
qed

subsection \<open>The fold of the logarithm\<close>

lemma log_fold_cases:
  "log_fold x =
     (if flt (fst (frexp_float x)) sqrt_05
      then (fadd (fst (frexp_float x)) (fsub (fst (frexp_float x)) gen_one),
            snd (frexp_float x) - 1)
      else (fadd (fst (frexp_float x)) (fsub 0 gen_one), snd (frexp_float x)))"
  by (simp add: log_fold_def Let_def mask_lt_def mask_of_def)

text \<open>C1 fails on the exponent: at \<open>x = 1.25\<close> the mantissa is \<open>0.625\<close>, below \<open>sqrt 0.5\<close>,
  and the exponent 1 becomes 0, not 2: the all-ones mask that is added is the integer
  \<open>-1\<close>.\<close>

theorem log_fold_counterexample:
  "frexp_float 0x3FA00000 = (0x3F200000, 1) \<and> flt 0x3F200000 sqrt_05
   \<and> snd (log_fold 0x3FA00000) = 0 \<and> snd (log_fold 0x3FA00000) \<noteq> 1 + 1"
proof -
  have f: "frexp_float 0x3FA00000 = (0x3F200000, 1)"
    by (simp add: frexp_float_def feval cong: let_weak_cong)
  have l: "flt 0x3F200000 sqrt_05" by (simp add: feval)
  show ?thesis using f l by (simp add: log_fold_cases)
qed

lemma fexp_by_mask: "fexp w = unat (drop_bit 23 (gen_exp_mask AND w))"
proof -
  have "take_bit 8 (drop_bit 23 w) = drop_bit 23 (gen_exp_mask AND w)"
    unfolding gen_exp_mask_bits by (rule bit_word_eqI) (auto simp add: bit_simps)
  then show ?thesis by (simp only: fexp_def)
qed

lemma frexp_mantissa_fields:
  "fexp (andnot gen_exp_mask x OR gen_exp_mask_1) = 126"
  "ffrac (andnot gen_exp_mask x OR gen_exp_mask_1) = ffrac x"
  "fsign (andnot gen_exp_mask x OR gen_exp_mask_1) = fsign x"
proof -
  show "fexp (andnot gen_exp_mask x OR gen_exp_mask_1) = 126"
    unfolding fexp_by_mask exp_of_mantissa by (simp add: gen_exp_mask_1_def)
  have "take_bit 23 (andnot gen_exp_mask x OR gen_exp_mask_1) = take_bit 23 x"
    unfolding andnot_def gen_exp_mask_bits gen_exp_mask_1_bits
    by (rule bit_word_eqI) (auto simp add: bit_simps)
  then show "ffrac (andnot gen_exp_mask x OR gen_exp_mask_1) = ffrac x"
    by (simp only: ffrac_def)
  show "fsign (andnot gen_exp_mask x OR gen_exp_mask_1) = fsign x"
    unfolding fsign_def andnot_def gen_exp_mask_bits gen_exp_mask_1_bits
    by (simp add: bit_simps)
qed

lemma frexp_mantissa:
  assumes "\<not> fsign x"
  shows "is_finite (fst (frexp_float x))"
    and "valof (fst (frexp_float x)) = real (2 ^ 23 + ffrac x) * 2 powi (- 24)"
    and "\<not> is_nan (fst (frexp_float x))"
proof -
  have m: "fst (frexp_float x) = andnot gen_exp_mask x OR gen_exp_mask_1"
    by (simp add: frexp_float_def Let_def)
  show "is_finite (fst (frexp_float x))" "\<not> is_nan (fst (frexp_float x))"
    unfolding m by (simp_all add: is_finite_def is_nan_def frexp_mantissa_fields)
  show "valof (fst (frexp_float x)) = real (2 ^ 23 + ffrac x) * 2 powi (- 24)"
    unfolding m using assms
    by (simp add: valof_def mant_def expo_def frexp_mantissa_fields)
qed

lemma log_fold_values:
  assumes sx: "\<not> fsign x"
  defines "m \<equiv> fst (frexp_float x)"
  shows "valof (fadd m (fsub m gen_one)) = 2 * valof m - 1"
    and "valof (fadd m (fsub 0 gen_one)) = valof m - 1"
proof -
  define f where "f = ffrac x"
  have fl: "f < 2 ^ 23" unfolding f_def by (rule ffrac_less)
  note fm = frexp_mantissa [OF sx, folded m_def f_def]
  have vm: "valof m = (2 ^ 23 + real f) * 2 powi (- 24)" using fm(2) by simp
  have r1: "valof m - valof gen_one = real_of_int (int f - 2 ^ 23) * 2 powi (- 24)"
    unfolding vm gen_one_fields(2) by (simp add: power_int_minus field_simps)
  have z1: "\<bar>int f - 2 ^ 23\<bar> < 2 ^ 24" using fl by simp
  note d = fsub_exact [OF fm(1) gen_one_fields(1) r1 z1]
  have r2: "valof m + valof (fsub m gen_one) = real_of_int (2 * int f) * 2 powi (- 24)"
    unfolding d(1) [simplified] vm gen_one_fields(2) by (simp add: power_int_minus field_simps)
  have z2: "\<bar>2 * int f\<bar> < 2 ^ 24" using fl by simp
  note s = fadd_exact [OF fm(1) _ r2 z2]
  have "valof (fadd m (fsub m gen_one)) = valof m + valof (fsub m gen_one)"
    using s(1) d(2) by simp
  then show "valof (fadd m (fsub m gen_one)) = 2 * valof m - 1"
    using d(1) by (simp add: gen_one_fields(2))
  have r3: "valof 0 - valof gen_one = real_of_int (- 1) * 2 powi 0"
    by (simp add: zero_fields gen_one_fields)
  note n = fsub_exact [OF zero_fields(1) gen_one_fields(1) r3]
  have vn: "valof (fsub 0 gen_one) = - 1" using n(1) by (simp add: zero_fields gen_one_fields)
  have fn: "is_finite (fsub 0 gen_one)" using n(2) by simp
  have r4: "valof m + valof (fsub 0 gen_one) = real_of_int (int f - 2 ^ 23) * 2 powi (- 24)"
    unfolding vn vm by (simp add: power_int_minus field_simps)
  note s2 = fadd_exact [OF fm(1) fn r4 z1]
  show "valof (fadd m (fsub 0 gen_one)) = valof m - 1" using s2(1) vn by simp
qed

lemma sqrt_05_not_nan: "\<not> is_nan sqrt_05"
  by (simp add: is_nan_def sqrt_05_def fexp_def)

text \<open>The comparison is strict: at \<open>x = 0x3FB504F3\<close> the mantissa is the constant itself and
  the exponent 1 is kept.\<close>

lemma log_fold_at_constant:
  "frexp_float 0x3FB504F3 = (sqrt_05, 1) \<and> snd (log_fold 0x3FB504F3) = 1"
proof -
  have f: "frexp_float 0x3FB504F3 = (0x3F3504F3, 1)"
    by (simp add: frexp_float_def feval cong: let_weak_cong)
  have l: "\<not> flt 0x3F3504F3 sqrt_05" by (simp add: feval)
  show ?thesis using f l by (simp add: log_fold_cases sqrt_05_def)
qed

lemma sqrt_05_value: "valof sqrt_05 = 11863283 / 16777216"
  by (simp add: valof_def sqrt_05_def fsign_def mant_def expo_def fexp_def ffrac_def)

text \<open>C1 as amended: for every lane \<open>x\<close> with a clear sign bit, with \<open>(m, e)\<close> from
  \<open>frexp_float x\<close>: when \<open>m\<close> is strictly below the float constant \<open>sqrt_05\<close> (the lane
  \<open>0x3F3504F3\<close> that the literal \<^verbatim>\<open>0.707106781186547524f\<close> initialises, of value
  \<open>11863283 / 2 ^ 24 = 0.707106769084930419921875\<close>) the exponent is decremented by 1 and
  the mantissa becomes \<open>2 * m - 1\<close>, exactly; otherwise, the lane \<open>m = sqrt_05\<close> included, the
  exponent is unchanged and the mantissa becomes \<open>m - 1\<close>, exactly.\<close>

theorem log_fold_amended:
  "\<not> fsign x \<Longrightarrow> frexp_float x = (m, e) \<Longrightarrow> log_fold x = (m', e') \<Longrightarrow>
     (valof m < valof sqrt_05 \<longrightarrow> e' = e - 1 \<and> valof m' = 2 * valof m - 1)
     \<and> (\<not> valof m < valof sqrt_05 \<longrightarrow> e' = e \<and> valof m' = valof m - 1)"
proof -
  assume sx: "\<not> fsign x" and fr: "frexp_float x = (m, e)" and lf: "log_fold x = (m', e')"
  have m: "m = fst (frexp_float x)" and e: "e = snd (frexp_float x)" using fr by simp_all
  have c: "flt m sqrt_05 \<longleftrightarrow> valof m < valof sqrt_05"
    unfolding m using frexp_mantissa(3) [OF sx] sqrt_05_not_nan by (rule flt_valof)
  note lv = log_fold_values [OF sx, folded m]
  show ?thesis
    using lf lv unfolding log_fold_cases m [symmetric] e [symmetric] c
    by (auto split: if_splits)
qed

theorem log_fold_amended_witness:
  "\<not> fsign 0x3FA00000 \<and> frexp_float 0x3FA00000 = (0x3F200000, 1)
   \<and> log_fold 0x3FA00000 = (0x3E800000, 0) \<and> valof 0x3F200000 < valof sqrt_05
   \<and> valof 0x3E800000 = 2 * valof 0x3F200000 - 1
   \<and> \<not> fsign 0x40400000 \<and> frexp_float 0x40400000 = (0x3F400000, 2)
   \<and> log_fold 0x40400000 = (0xBE800000, 2) \<and> \<not> valof 0x3F400000 < valof sqrt_05
   \<and> valof 0xBE800000 = valof 0x3F400000 - 1"
proof -
  have s: "\<not> fsign 0x3FA00000" "\<not> fsign 0x40400000" by (simp_all add: fsign_def)
  have f1: "frexp_float 0x3FA00000 = (0x3F200000, 1)"
    by (simp add: frexp_float_def feval cong: let_weak_cong)
  have f2: "frexp_float 0x40400000 = (0x3F400000, 2)"
    by (simp add: frexp_float_def feval cong: let_weak_cong)
  have l1: "log_fold 0x3FA00000 = (0x3E800000, 0)"
    by (simp add: log_fold_def f1 feval cong: let_weak_cong)
  have l2: "log_fold 0x40400000 = (0xBE800000, 2)"
    by (simp add: log_fold_def f2 feval cong: let_weak_cong)
  have c1: "valof 0x3F200000 < valof sqrt_05"
    by (simp add: valof_def sqrt_05_def fsign_def mant_def expo_def fexp_def ffrac_def)
  have c2: "\<not> valof 0x3F400000 < valof sqrt_05"
    by (simp add: valof_def sqrt_05_def fsign_def mant_def expo_def fexp_def ffrac_def)
  show ?thesis
    using s f1 f2 l1 l2 c1 c2 log_fold_amended [OF s(1) f1 l1] log_fold_amended [OF s(2) f2 l2]
    by simp
qed

subsection \<open>Rounding family\<close>

text \<open>C8: for every finite lane \<open>x\<close> with \<open>|x| < 2 ^ 23\<close>, \<open>vec_round_float x\<close> is an
  integer at distance at most 1/2 from \<open>x\<close>, and even when the distance is exactly 1/2 (the
  nearest integer, ties to even); \<open>vec_floor_float x\<close> is the greatest integer at most \<open>x\<close>
  and \<open>vec_ceil_float x\<close> the least integer at least \<open>x\<close>.  The witness has
  \<open>round 2.5 = 2.0\<close>, \<open>floor (-2.5) = -3.0\<close> and \<open>ceil (-2.5) = -2.0\<close>.\<close>

theorem rounding_family:
  "is_finite x \<Longrightarrow> \<bar>valof x\<bar> < 2 ^ 23 \<Longrightarrow>
     (\<exists>n::int. valof (vec_round_float x) = of_int n
        \<and> \<bar>valof x - of_int n\<bar> \<le> 1 / 2 \<and> (\<bar>valof x - of_int n\<bar> = 1 / 2 \<longrightarrow> even n))
     \<and> valof (vec_floor_float x) = of_int \<lfloor>valof x\<rfloor>
     \<and> valof (vec_ceil_float x) = of_int \<lceil>valof x\<rceil>
     \<and> is_finite (vec_round_float x) \<and> is_finite (vec_floor_float x)
     \<and> is_finite (vec_ceil_float x)"
  using round_float_val [of x] floor_float_val [of x] ceil_float_val [of x] by blast

theorem rounding_family_witness:
  "is_finite 0x40200000 \<and> \<bar>valof 0x40200000\<bar> < 2 ^ 23 \<and> valof 0x40200000 = 5 / 2
   \<and> vec_round_float 0x40200000 = 0x40000000 \<and> valof 0x40000000 = 2
   \<and> valof (vec_floor_float 0x40200000) = of_int \<lfloor>valof 0x40200000\<rfloor>
   \<and> is_finite 0xC0200000 \<and> \<bar>valof 0xC0200000\<bar> < 2 ^ 23 \<and> valof 0xC0200000 = - 5 / 2
   \<and> vec_floor_float 0xC0200000 = 0xC0400000 \<and> valof 0xC0400000 = - 3
   \<and> vec_ceil_float 0xC0200000 = 0xC0000000 \<and> valof 0xC0000000 = - 2
   \<and> valof (vec_ceil_float 0xC0200000) = of_int \<lceil>valof 0xC0200000\<rceil>"
proof -
  have f: "is_finite 0x40200000" "is_finite 0xC0200000"
    by (simp_all add: is_finite_def fexp_def)
  have v: "valof 0x40200000 = 5 / 2" "valof 0xC0200000 = - 5 / 2" "valof 0x40000000 = 2"
    "valof 0xC0400000 = - 3" "valof 0xC0000000 = - 2"
    by (simp_all add: valof_def fsign_def mant_def expo_def fexp_def ffrac_def)
  have s: "\<bar>valof 0x40200000\<bar> < 2 ^ 23" "\<bar>valof 0xC0200000\<bar> < 2 ^ 23" by (simp_all add: v)
  have r: "vec_round_float 0x40200000 = 0x40000000"
    by (simp add: vec_round_float_def feval cong: let_weak_cong)
  have fl: "vec_floor_float 0xC0200000 = 0xC0400000"
    by (simp add: vec_floor_float_def vec_round_float_def feval cong: let_weak_cong)
  have ce: "vec_ceil_float 0xC0200000 = 0xC0000000"
    by (simp add: vec_ceil_float_def vec_round_float_def feval cong: let_weak_cong)
  show ?thesis
    using f v s r fl ce rounding_family [OF f(1) s(1)] rounding_family [OF f(2) s(2)]
    by simp
qed

end
